theory Spec2Isabelle
  imports Main
begin

section \<open>The durable store and the state of one extension instance\<close>

text \<open>
  The extension keeps its durable state in the host's \<^verbatim>\<open>globalState\<close> memento, a
  key-value store shared by every window, and its working state in module-level
  variables of \<^verbatim>\<open>extension.js\<close> and of the payment handler. The store is modelled by one
  field per key the code uses, typed by what the code writes under that key; \<open>None\<close>
  is an absent key, for which \<^verbatim>\<open>get(key)\<close> gives \<^verbatim>\<open>undefined\<close> and
  \<^verbatim>\<open>get(key, d)\<close> gives \<open>d\<close>. Times are milliseconds as \<^verbatim>\<open>Date.now()\<close> gives them.
\<close>

record store =
  enabled_global :: "bool option"          \<comment> \<open>\<^verbatim>\<open>auto-accept-enabled-global\<close>\<close>
  banned_commands :: "string list option"  \<comment> \<open>\<^verbatim>\<open>auto-accept-banned-commands\<close>\<close>
  instance_lock :: "string option"         \<comment> \<open>\<^verbatim>\<open>auto-accept-instance-lock\<close>\<close>
  instance_heartbeat :: "int option"       \<comment> \<open>\<^verbatim>\<open>auto-accept-instance-heartbeat\<close>\<close>
  ide_lock :: "string option"              \<comment> \<open>\<^verbatim>\<open>${ide}-instance-lock\<close>\<close>
  ide_lock_ping :: "int option"            \<comment> \<open>\<^verbatim>\<open>${ide}-instance-lock-ping\<close>\<close>
  background_dont_show :: "bool option"    \<comment> \<open>\<^verbatim>\<open>auto-accept-background-dont-show\<close>\<close>
  background_mode :: "bool option"         \<comment> \<open>\<^verbatim>\<open>auto-accept-background-mode\<close>\<close>
  pro_state :: "bool option"               \<comment> \<open>\<^verbatim>\<open>auto-accept-isPro\<close>\<close>
  trial_start :: "int option"              \<comment> \<open>\<^verbatim>\<open>auto-accept-trial-start\<close>\<close>
  trial_notified :: "bool option"          \<comment> \<open>\<^verbatim>\<open>auto-accept-trial-notified\<close>\<close>
  frequency :: "int option"                \<comment> \<open>\<^verbatim>\<open>auto-accept-frequency\<close>\<close>
  user_id :: "string option"               \<comment> \<open>\<^verbatim>\<open>auto-accept-userId\<close>\<close>
  plan :: "string option"                  \<comment> \<open>\<^verbatim>\<open>auto-accept-plan\<close>\<close>

definition empty_store :: store where
  "empty_store = \<lparr>enabled_global = None, banned_commands = None, instance_lock = None,
     instance_heartbeat = None, ide_lock = None, ide_lock_ping = None,
     background_dont_show = None, background_mode = None, pro_state = None,
     trial_start = None, trial_notified = None, frequency = None, user_id = None,
     plan = None\<rparr>"

text \<open>A reference to the extension context is either \<^verbatim>\<open>null\<close> or the one context
  object of the host, whose \<^verbatim>\<open>globalState\<close> is the durable store.\<close>

datatype ref = Null | ExtensionContext

text \<open>Reading a property of \<^verbatim>\<open>null\<close> throws.\<close>

datatype error = TypeError

text \<open>What a handler does to the outside: messages to the user, calls to the
  browser driver, the setup flow, requests to the licensing backend. Each instance
  keeps the list of them in the order they happen; log lines are left out.\<close>

record cdp_config =
  cfg_isPro :: bool
  cfg_isBackgroundMode :: bool
  cfg_pollInterval :: int
  cfg_bannedCommands :: "string list"

datatype effect =
    TrialExpiredNotice
  | TrialActivatedNotice
  | ProFeatureDenial
  | BackgroundConfirmDialog
  | SetupFlow
  | CdpStart cdp_config
  | CdpStop
  | CdpSetProStatus bool
  | HideBackgroundOverlay
  | ExecuteAcceptCommands
  | UpdateStatusBar
  | LicenseRequest
  | ProbeInvoked
  | VerifyingNotice
  | PollingExhaustedWarning
  | ProActivatedNotice
  | UpgradePrompt
  | RelauncherMissingError

text \<open>The periodic tasks the code installs with \<^verbatim>\<open>setInterval\<close>.\<close>

datatype task = CommandPoll | MaintenancePoll | ProPoll

record timer =
  handle :: nat
  runs :: task
  interval :: int

record world =
  globalState :: store
  effects :: "effect list"
  live_timers :: "timer list"
  next_handle :: nat
  \<comment> \<open>payment handler\<close>
  p_context :: ref
  p_isPro :: bool
  p_callbacks :: bool                      \<comment> \<open>whether \<^verbatim>\<open>_callbacks.onProActivated\<close> is set\<close>
  proPollingTimer :: "nat option"
  proPollingAttempts :: nat
  \<comment> \<open>\<^verbatim>\<open>extension.js\<close>\<close>
  isEnabled :: bool
  isLockedOut :: bool
  pollFrequency :: int
  bannedCommands :: "string list"
  backgroundModeEnabled :: bool
  pollTimer :: "nat option"
  commandPollTimer :: "nat option"
  cdpHandler :: bool
  relauncher :: bool
  globalContext :: ref
  extension_id :: string                   \<comment> \<open>\<^verbatim>\<open>globalContext.extension.id\<close>\<close>
  INSTANCE_ID :: string

text \<open>The module-level initialisers of both files, over a given store. The extension
  identifier the host hands out and the random \<^verbatim>\<open>INSTANCE_ID\<close> are both given by
  \<open>ident\<close>.\<close>

definition module_load :: "store \<Rightarrow> string \<Rightarrow> world" where
  "module_load kv ident = \<lparr>globalState = kv, effects = [], live_timers = [], next_handle = 0,
     p_context = Null, p_isPro = False, p_callbacks = False, proPollingTimer = None,
     proPollingAttempts = 0,
     isEnabled = False, isLockedOut = False, pollFrequency = 2000, bannedCommands = [],
     backgroundModeEnabled = False, pollTimer = None, commandPollTimer = None,
     cdpHandler = False, relauncher = False, globalContext = Null, extension_id = ident,
     INSTANCE_ID = ident\<rparr>"

definition emit :: "effect \<Rightarrow> world \<Rightarrow> world" where
  "emit e w = w\<lparr>effects := effects w @ [e]\<rparr>"

section \<open>The payment handler: trial clock and entitlement\<close>

definition TRIAL_DURATION_MS :: int where
  "TRIAL_DURATION_MS = 3 * 24 * 60 * 60 * 1000"

definition MAX_PRO_POLLING_ATTEMPTS :: nat where
  "MAX_PRO_POLLING_ATTEMPTS = 24"

text \<open>\<^verbatim>\<open>_context.globalState\<close>: throws when \<^verbatim>\<open>_context\<close> is \<^verbatim>\<open>null\<close>.\<close>

definition context_globalState :: "world \<Rightarrow> error + store" where
  "context_globalState w =
     (case p_context w of Null \<Rightarrow> Inl TypeError | ExtensionContext \<Rightarrow> Inr (globalState w))"

definition isPro :: "world \<Rightarrow> bool" where
  "isPro w = p_isPro w"

text \<open>\<^verbatim>\<open>!trialStart\<close> holds for an absent key and for a stored \<open>0\<close>.\<close>

definition isTrialActive :: "world \<Rightarrow> int \<Rightarrow> error + bool" where
  "isTrialActive w now =
     (if p_context w = Null then Inr False
      else case context_globalState w of
        Inl e \<Rightarrow> Inl e
      | Inr gs \<Rightarrow>
          (case trial_start gs of
             None \<Rightarrow> Inr False
           | Some trialStart \<Rightarrow>
               if trialStart = 0 then Inr False
               else Inr (now - trialStart < TRIAL_DURATION_MS)))"

definition hasTrialStarted :: "world \<Rightarrow> error + bool" where
  "hasTrialStarted w =
     (if p_context w = Null then Inr False
      else case context_globalState w of
        Inl e \<Rightarrow> Inl e
      | Inr gs \<Rightarrow> Inr (trial_start gs \<noteq> None))"

definition hasProAccess :: "world \<Rightarrow> int \<Rightarrow> error + bool" where
  "hasProAccess w now = (if p_isPro w then Inr True else isTrialActive w now)"

text \<open>\<^verbatim>\<open>Math.ceil(remaining / day)\<close> on integers.\<close>

definition ceil_div :: "int \<Rightarrow> int \<Rightarrow> int" where
  "ceil_div a b = - ((- a) div b)"

definition getTrialDaysLeft :: "world \<Rightarrow> int \<Rightarrow> error + int" where
  "getTrialDaysLeft w now =
     (if p_context w = Null then Inr 0
      else case context_globalState w of
        Inl e \<Rightarrow> Inl e
      | Inr gs \<Rightarrow>
          (case trial_start gs of
             None \<Rightarrow> Inr 0
           | Some trialStart \<Rightarrow>
               if trialStart = 0 then Inr 0
               else let remaining = TRIAL_DURATION_MS - (now - trialStart)
                    in Inr (max 0 (ceil_div remaining (24 * 60 * 60 * 1000)))))"

definition getPollFrequency :: "world \<Rightarrow> int \<Rightarrow> error + int" where
  "getPollFrequency w now =
     (if p_context w = Null then Inr 300
      else case hasProAccess w now of
        Inl e \<Rightarrow> Inl e
      | Inr access \<Rightarrow>
          if access then
            (case context_globalState w of
               Inl e \<Rightarrow> Inl e
             | Inr gs \<Rightarrow> Inr (case frequency gs of None \<Rightarrow> 1000 | Some f \<Rightarrow> f))
          else Inr 300)"

definition setProStatus :: "bool \<Rightarrow> world \<Rightarrow> world" where
  "setProStatus val w =
     (let w1 = w\<lparr>p_isPro := val\<rparr> in
      if p_context w1 \<noteq> Null then
        let w2 = w1\<lparr>globalState := (globalState w1)\<lparr>pro_state := Some val\<rparr>\<rparr> in
        if val then w2\<lparr>globalState := (globalState w2)\<lparr>trial_notified := Some False\<rparr>\<rparr>
        else w2
      else w1)"

definition startTrial :: "int \<Rightarrow> world \<Rightarrow> world" where
  "startTrial now w =
     (if p_context w \<noteq> Null
      then w\<lparr>globalState := (globalState w)\<lparr>trial_start := Some now\<rparr>\<rparr>
      else w)"

text \<open>The expiry check: silent when there is no context or the user is pro; otherwise
  it notifies once the trial is recorded, over and not yet notified, and records that.\<close>

definition checkTrialExpiration :: "int \<Rightarrow> world \<Rightarrow> error + world" where
  "checkTrialExpiration now w =
     (if p_context w = Null \<or> p_isPro w then Inr w
      else case context_globalState w of
        Inl e \<Rightarrow> Inl e
      | Inr gs \<Rightarrow>
          let trialStart = trial_start gs;
              hasNotified = (case trial_notified gs of None \<Rightarrow> False | Some b \<Rightarrow> b)
          in if trialStart = None \<or> trialStart = Some 0 then Inr w
             else case isTrialActive w now of
               Inl e \<Rightarrow> Inl e
             | Inr active \<Rightarrow>
                 if \<not> active \<and> \<not> hasNotified
                 then Inr (emit TrialExpiredNotice
                        (w\<lparr>globalState := (globalState w)\<lparr>trial_notified := Some True\<rparr>\<rparr>))
                 else Inr w)"

text \<open>\<^verbatim>\<open>init(context)\<close>: keep the context, load the pro flag, run the expiry check.\<close>

definition init :: "int \<Rightarrow> world \<Rightarrow> error + world" where
  "init now w =
     checkTrialExpiration now
       (w\<lparr>p_context := ExtensionContext,
          p_isPro := (case pro_state (globalState w) of None \<Rightarrow> False | Some b \<Rightarrow> b)\<rparr>)"

subsection \<open>License verification\<close>

text \<open>What the licensing backend sends back: a transport error, a body that does not
  parse, or a JSON object of which the code reads \<^verbatim>\<open>isPro === true\<close> and the string
  \<^verbatim>\<open>plan\<close> (absent: \<open>None\<close>). \<open>verifyLicense\<close> returns what its promise
  resolves to, as a truth value: with \<^verbatim>\<open>isPro\<close> true and no plan the promise resolves to
  the falsy plan itself, here \<open>False\<close>. \<open>toLowerCase\<close> is that of ASCII letters.\<close>

datatype response = NetworkError | Malformed | Json bool "string option"

definition toLowerCase :: "string \<Rightarrow> string" where
  "toLowerCase s =
     map (\<lambda>c. let n = (of_char c :: nat) in if 65 \<le> n \<and> n \<le> 90 then char_of (n + 32) else c) s"

definition verifyLicense :: "response \<Rightarrow> world \<Rightarrow> world \<times> bool" where
  "verifyLicense resp w =
     (if p_context w = Null then (w, False)
      else case user_id (globalState w) of
        None \<Rightarrow> (w, False)
      | Some userId \<Rightarrow>
          if userId = [] then (w, False)
          else let w1 = emit LicenseRequest w in
            (case resp of
               NetworkError \<Rightarrow> (w1, False)
             | Malformed \<Rightarrow> (w1, False)
             | Json json_isPro json_plan \<Rightarrow>
                 (case json_plan of
                    None \<Rightarrow> (w1, False)
                  | Some p \<Rightarrow>
                      if p = [] then (w1, False)
                      else
                        let w2 = (if p_context w1 \<noteq> Null
                                  then w1\<lparr>globalState := (globalState w1)\<lparr>plan := Some p\<rparr>\<rparr>
                                  else w1);
                            isValidPlan = (toLowerCase p \<in> set [''lifetime'', ''monthly''])
                        in (w2, json_isPro \<and> isValidPlan))))"

text \<open>The two halves of \<open>verifyLicense\<close>. What runs at the call: the guards, which
  resolve the promise to \<^verbatim>\<open>false\<close> at once, or the request is sent (\<open>True\<close>: the
  promise is pending). What runs when the backend answers: the handlers of the response,
  with the truth value the promise resolves to.\<close>

definition verifyLicense_send :: "world \<Rightarrow> world \<times> bool" where
  "verifyLicense_send w =
     (if p_context w = Null then (w, False)
      else case user_id (globalState w) of
        None \<Rightarrow> (w, False)
      | Some userId \<Rightarrow>
          if userId = [] then (w, False) else (emit LicenseRequest w, True))"

definition verifyLicense_receive :: "response \<Rightarrow> world \<Rightarrow> world \<times> bool" where
  "verifyLicense_receive resp w =
     (case resp of
        NetworkError \<Rightarrow> (w, False)
      | Malformed \<Rightarrow> (w, False)
      | Json json_isPro json_plan \<Rightarrow>
          (case json_plan of
             None \<Rightarrow> (w, False)
           | Some p \<Rightarrow>
               if p = [] then (w, False)
               else
                 let w2 = (if p_context w \<noteq> Null
                           then w\<lparr>globalState := (globalState w)\<lparr>plan := Some p\<rparr>\<rparr>
                           else w);
                     isValidPlan = (toLowerCase p \<in> set [''lifetime'', ''monthly''])
                 in (w2, json_isPro \<and> isValidPlan)))"

subsection \<open>Sequences of calls to the payment handler\<close>

text \<open>The calls the extension makes to the payment handler, in any order; a call that
  throws ends the sequence. \<open>notices\<close> counts the expiry notices shown so far,
  \<open>hasNotified\<close> reads the notified flag as the expiry check does, and \<open>pending\<close>
  adds to the notices shown the one that may still come. \<open>synced\<close> says that the
  module has its context and its pro flag is the stored one.\<close>

datatype payment_call =
    Init int
  | CheckTrialExpiration int
  | SetProStatus bool
  | StartTrial int
  | VerifyLicense response

fun payment_step :: "payment_call \<Rightarrow> world \<Rightarrow> error + world" where
  "payment_step (Init now) w = init now w"
| "payment_step (CheckTrialExpiration now) w = checkTrialExpiration now w"
| "payment_step (SetProStatus val) w = Inr (setProStatus val w)"
| "payment_step (StartTrial now) w = Inr (startTrial now w)"
| "payment_step (VerifyLicense resp) w = Inr (fst (verifyLicense resp w))"

fun payment_run :: "payment_call list \<Rightarrow> world \<Rightarrow> error + world" where
  "payment_run [] w = Inr w"
| "payment_run (c # cs) w =
     (case payment_step c w of Inl e \<Rightarrow> Inl e | Inr w' \<Rightarrow> payment_run cs w')"

definition notices :: "world \<Rightarrow> nat" where
  "notices w = length (filter (\<lambda>e. e = TrialExpiredNotice) (effects w))"

definition hasNotified :: "world \<Rightarrow> bool" where
  "hasNotified w = (trial_notified (globalState w) = Some True)"

definition pending :: "world \<Rightarrow> nat" where
  "pending w = notices w + (if hasNotified w then 0 else 1)"

definition synced :: "world \<Rightarrow> bool" where
  "synced w \<longleftrightarrow>
     p_context w = ExtensionContext \<and> p_isPro w = (pro_state (globalState w) = Some True)"

section \<open>The extension: timers, polling and the instance lock\<close>

text \<open>\<^verbatim>\<open>setInterval\<close> installs a periodic task and returns its handle;
  \<^verbatim>\<open>clearInterval\<close> removes it, after which it fires no more.\<close>

definition setInterval :: "task \<Rightarrow> int \<Rightarrow> world \<Rightarrow> world \<times> nat" where
  "setInterval k ms w =
     (w\<lparr>live_timers := live_timers w @ [\<lparr>handle = next_handle w, runs = k, interval = ms\<rparr>],
        next_handle := Suc (next_handle w)\<rparr>,
      next_handle w)"

definition clearInterval :: "nat \<Rightarrow> world \<Rightarrow> world" where
  "clearInterval h w = w\<lparr>live_timers := filter (\<lambda>t. handle t \<noteq> h) (live_timers w)\<rparr>"

text \<open>\<^verbatim>\<open>if (t) clearInterval(t)\<close>\<close>

definition clearTimer :: "nat option \<Rightarrow> world \<Rightarrow> world" where
  "clearTimer t w = (case t of None \<Rightarrow> w | Some h \<Rightarrow> clearInterval h w)"

text \<open>JavaScript truthiness of a stored string: absent and empty are falsy. (A stored
  number is falsy when absent or \<open>0\<close>.)\<close>

definition truthy_string :: "string option \<Rightarrow> bool" where
  "truthy_string v = (case v of None \<Rightarrow> False | Some s \<Rightarrow> s \<noteq> [])"

definition updateStatusBar :: "world \<Rightarrow> world" where
  "updateStatusBar w = emit UpdateStatusBar w"

definition executeAcceptCommandsForIDE :: "world \<Rightarrow> world" where
  "executeAcceptCommandsForIDE w = emit ExecuteAcceptCommands w"

text \<open>\<open>syncSessions\<close> starts the browser driver with the current configuration, unless
  there is no driver or this instance is locked out. Whatever is thrown inside is caught.\<close>

definition syncSessions :: "int \<Rightarrow> world \<Rightarrow> world" where
  "syncSessions now w =
     (if cdpHandler w \<and> \<not> isLockedOut w then
        (case hasProAccess w now of
           Inl e \<Rightarrow> w
         | Inr access \<Rightarrow>
             emit (CdpStart \<lparr>cfg_isPro = access,
                             cfg_isBackgroundMode = backgroundModeEnabled w,
                             cfg_pollInterval = pollFrequency w,
                             cfg_bannedCommands = bannedCommands w\<rparr>) w)
      else w)"

definition startPolling :: "int \<Rightarrow> world \<Rightarrow> world" where
  "startPolling now w =
     (let w1 = clearTimer (pollTimer w) w;
          w2 = clearTimer (commandPollTimer w1) w1;
          w3 = syncSessions now w2;
          w4 = executeAcceptCommandsForIDE w3;
          (w5, c) = setInterval CommandPoll (pollFrequency w4) w4;
          w6 = w5\<lparr>commandPollTimer := Some c\<rparr>;
          (w7, p) = setInterval MaintenancePoll 5000 w6
      in w7\<lparr>pollTimer := Some p\<rparr>)"

definition stopPolling :: "world \<Rightarrow> world" where
  "stopPolling w =
     (let w1 = (case pollTimer w of
                  None \<Rightarrow> w
                | Some h \<Rightarrow> (clearInterval h w)\<lparr>pollTimer := None\<rparr>);
          w2 = (case commandPollTimer w1 of
                  None \<Rightarrow> w1
                | Some h \<Rightarrow> (clearInterval h w1)\<lparr>commandPollTimer := None\<rparr>)
      in if cdpHandler w2 then emit CdpStop w2 else w2)"

text \<open>The task of \<open>commandPollTimer\<close>.\<close>

definition commandTick :: "world \<Rightarrow> world" where
  "commandTick w = (if \<not> isEnabled w then w else executeAcceptCommandsForIDE w)"

text \<open>\<^verbatim>\<open>globalContext.globalState\<close>: throws when \<^verbatim>\<open>globalContext\<close> is \<^verbatim>\<open>null\<close>.\<close>

definition globalContext_globalState :: "world \<Rightarrow> error + store" where
  "globalContext_globalState w =
     (case globalContext w of Null \<Rightarrow> Inl TypeError | ExtensionContext \<Rightarrow> Inr (globalState w))"

text \<open>The task of \<open>pollTimer\<close>, every five seconds: the instance lock. Another
  instance's lock with a ping less than 15 seconds old puts this instance on standby;
  otherwise it writes its own identifier and the time, and synchronises the driver.
  The clock is read once per run.\<close>

definition pollTick :: "int \<Rightarrow> world \<Rightarrow> error + world" where
  "pollTick now w =
     (if \<not> isEnabled w then Inr w
      else case globalContext_globalState w of
        Inl e \<Rightarrow> Inl e
      | Inr gs \<Rightarrow>
          let activeInstance = ide_lock gs;
              myId = extension_id w;
              lastPing = ide_lock_ping gs
          in if truthy_string activeInstance \<and> activeInstance \<noteq> Some myId \<and>
                (case lastPing of None \<Rightarrow> False | Some ping \<Rightarrow> ping \<noteq> 0 \<and> now - ping < 15000)
             then Inr (if \<not> isLockedOut w then updateStatusBar (w\<lparr>isLockedOut := True\<rparr>) else w)
             else
               let w1 = w\<lparr>globalState := gs\<lparr>ide_lock := Some myId, ide_lock_ping := Some now\<rparr>\<rparr>;
                   w2 = (if isLockedOut w1 then updateStatusBar (w1\<lparr>isLockedOut := False\<rparr>)
                         else w1)
               in Inr (syncSessions now w2))"

text \<open>\<open>checkInstanceLock\<close>, which no caller in the file uses: the same lock over its
  own two keys, with \<^verbatim>\<open>INSTANCE_ID\<close> and a bound of ten seconds. It returns whether
  this instance may go on.\<close>

definition checkInstanceLock :: "int \<Rightarrow> world \<Rightarrow> world \<times> bool" where
  "checkInstanceLock now w =
     (if isPro w then (w, True)
      else if globalContext w = Null then (w, True)
      else
        let gs = globalState w;
            lockId = instance_lock gs;
            lastHeartbeat = (case instance_heartbeat gs of None \<Rightarrow> 0 | Some h \<Rightarrow> h)
        in if \<not> truthy_string lockId \<or> now - lastHeartbeat > 10000
           then (w\<lparr>globalState := gs\<lparr>instance_lock := Some (INSTANCE_ID w),
                                       instance_heartbeat := Some now\<rparr>\<rparr>, True)
           else if lockId = Some (INSTANCE_ID w)
           then (w\<lparr>globalState := gs\<lparr>instance_heartbeat := Some now\<rparr>\<rparr>, True)
           else (w, False))"

subsection \<open>Several instances over one store\<close>

text \<open>Each window runs its own copy of the module state; the store is one. When the
  maintenance timer of instance \<open>i\<close> fires at time \<open>now\<close>, its task runs on the shared
  store and leaves its writes there. A schedule is the list of such firings in the order
  they happen, each task running to its end before the next starts.\<close>

type_synonym system = "store \<times> world list"

definition fire :: "int \<times> nat \<Rightarrow> system \<Rightarrow> error + system" where
  "fire ev sys =
     (case ev of (now, i) \<Rightarrow>
      case sys of (kv, ws) \<Rightarrow>
        if i < length ws then
          (case pollTick now ((ws ! i)\<lparr>globalState := kv\<rparr>) of
             Inl e \<Rightarrow> Inl e
           | Inr w' \<Rightarrow> Inr (globalState w', ws[i := w']))
        else Inr (kv, ws))"

fun fire_all :: "(int \<times> nat) list \<Rightarrow> system \<Rightarrow> error + system" where
  "fire_all [] sys = Inr sys"
| "fire_all (ev # evs) sys =
     (case fire ev sys of Inl e \<Rightarrow> Inl e | Inr sys' \<Rightarrow> fire_all evs sys')"

text \<open>The time of the last firing of instance \<open>i\<close> in a schedule.\<close>

fun last_fired :: "nat \<Rightarrow> (int \<times> nat) list \<Rightarrow> int option" where
  "last_fired i [] = None"
| "last_fired i ((now, k) # evs) =
     (case last_fired i evs of
        Some t \<Rightarrow> Some t
      | None \<Rightarrow> if k = i then Some now else None)"

text \<open>The instances of a system are told apart by their identifiers, and each has its
  context. A schedule lists its firings in time order, at positive clock readings not
  before the ping the store starts with.\<close>

definition distinct_instances :: "world list \<Rightarrow> bool" where
  "distinct_instances ws \<longleftrightarrow>
     distinct (map extension_id ws) \<and>
     (\<forall>w \<in> set ws. extension_id w \<noteq> [] \<and> globalContext w = ExtensionContext)"

definition in_time_order :: "store \<Rightarrow> (int \<times> nat) list \<Rightarrow> bool" where
  "in_time_order kv evs \<longleftrightarrow>
     sorted (map fst evs) \<and>
     (\<forall>t \<in> set (map fst evs). 0 < t \<and>
        (case ide_lock_ping kv of None \<Rightarrow> True | Some p \<Rightarrow> p \<le> t))"

text \<open>Whether the lock in the store keeps the instance \<open>myId\<close> out at time \<open>now\<close>.\<close>

definition held_by_other :: "int \<Rightarrow> string \<Rightarrow> store \<Rightarrow> bool" where
  "held_by_other now myId gs \<longleftrightarrow>
     truthy_string (ide_lock gs) \<and> ide_lock gs \<noteq> Some myId \<and>
     (case ide_lock_ping gs of None \<Rightarrow> False | Some ping \<Rightarrow> ping \<noteq> 0 \<and> now - ping < 15000)"

text \<open>An instance reports itself leader when it is switched on and not locked out.
  The other predicates say what the tick keeps true of the store and the instances along
  a schedule: the instances keep their identifiers and contexts; the stored ping is the
  one the store started with or the time of a tick; a leader is the stored holder since
  its last tick or was overtaken at least 15 seconds after it; two leaders have their
  last ticks at least 15 seconds apart.\<close>

definition reports_leader :: "world list \<Rightarrow> nat \<Rightarrow> bool" where
  "reports_leader ws i \<longleftrightarrow> i < length ws \<and> isEnabled (ws ! i) \<and> \<not> isLockedOut (ws ! i)"

definition frame_ok :: "world list \<Rightarrow> world list \<Rightarrow> bool" where
  "frame_ok ws0 ws \<longleftrightarrow>
     length ws = length ws0 \<and>
     (\<forall>i < length ws0. extension_id (ws ! i) = extension_id (ws0 ! i) \<and>
        isEnabled (ws ! i) = isEnabled (ws0 ! i) \<and> globalContext (ws ! i) = ExtensionContext)"

definition ping_from :: "store \<Rightarrow> (int \<times> nat) list \<Rightarrow> store \<Rightarrow> bool" where
  "ping_from kv0 evs kv \<longleftrightarrow>
     (\<forall>p. ide_lock_ping kv = Some p \<longrightarrow> ide_lock_ping kv0 = Some p \<or> p \<in> fst ` set evs)"

definition holder_inv :: "world list \<Rightarrow> (int \<times> nat) list \<Rightarrow> store \<Rightarrow> world list \<Rightarrow> bool" where
  "holder_inv ws0 evs kv ws \<longleftrightarrow>
     (\<forall>i ti. reports_leader ws i \<longrightarrow> last_fired i evs = Some ti \<longrightarrow>
        (\<exists>p. ide_lock_ping kv = Some p \<and>
           ((ide_lock kv = Some (extension_id (ws0 ! i)) \<and> p = ti) \<or> ti + 15000 \<le> p)))"

definition apart_inv :: "(int \<times> nat) list \<Rightarrow> world list \<Rightarrow> bool" where
  "apart_inv evs ws \<longleftrightarrow>
     (\<forall>i j ti tj. i \<noteq> j \<longrightarrow> reports_leader ws i \<longrightarrow> reports_leader ws j \<longrightarrow>
        last_fired i evs = Some ti \<longrightarrow> last_fired j evs = Some tj \<longrightarrow>
        ti + 15000 \<le> tj \<or> tj + 15000 \<le> ti)"

text \<open>A window in which the extension is activated and switched on, over an empty
  store, and one that finds another instance's lock in the store, pinged at time 1000.\<close>

definition window :: "string \<Rightarrow> world" where
  "window ident =
     (module_load empty_store ident)\<lparr>isEnabled := True, globalContext := ExtensionContext,
        p_context := ExtensionContext, p_callbacks := True\<rparr>"

definition window_behind :: world where
  "window_behind =
     (window ''me'')\<lparr>globalState := empty_store\<lparr>ide_lock := Some ''other'', ide_lock_ping := Some 1000\<rparr>\<rparr>"

section \<open>The extension: command handlers\<close>

text \<open>Handlers are \<^verbatim>\<open>async\<close>; each is modelled as running to its end undisturbed.
  What the outside answers while a handler runs is given to it: the clock, whether the
  browser driver reports a session (\<open>cdpAvail\<close>), the user's choice in a dialog, the
  backend's response.\<close>

definition handleFrequencyUpdate :: "int \<Rightarrow> int \<Rightarrow> world \<Rightarrow> error + world" where
  "handleFrequencyUpdate now freq w =
     (case hasProAccess w now of
        Inl e \<Rightarrow> Inl e
      | Inr access \<Rightarrow>
          if \<not> access then Inr w
          else
            let w1 = w\<lparr>pollFrequency := freq\<rparr>;
                w2 = w1\<lparr>globalState := (globalState w1)\<lparr>frequency := Some freq\<rparr>\<rparr>
            in if isEnabled w2 then
                 let w3 = syncSessions now w2;
                     w4 = clearTimer (commandPollTimer w3) w3;
                     (w5, c) = setInterval CommandPoll (pollFrequency w4) w4
                 in Inr (w5\<lparr>commandPollTimer := Some c\<rparr>)
               else Inr w2)"

text \<open>What the promise of \<open>verifyLicense\<close> resolves to. It is a boolean, except for
  an answer with \<^verbatim>\<open>isPro\<close> true and the plan absent or empty: then
  \<^verbatim>\<open>json.isPro === true && isValidPlan\<close> is the plan itself, \<^verbatim>\<open>undefined\<close> or
  \<^verbatim>\<open>''\<close>, a falsy value that is no boolean.\<close>

datatype resolved = Resolved bool | FalsyPlan

definition truthy :: "resolved \<Rightarrow> bool" where
  "truthy v = (case v of Resolved b \<Rightarrow> b | FalsyPlan \<Rightarrow> False)"

definition verifyLicense_value :: "response \<Rightarrow> world \<Rightarrow> resolved" where
  "verifyLicense_value resp w =
     (if p_context w = Null then Resolved False
      else case user_id (globalState w) of
        None \<Rightarrow> Resolved False
      | Some userId \<Rightarrow>
          if userId = [] then Resolved False
          else
            (case resp of
               NetworkError \<Rightarrow> Resolved False
             | Malformed \<Rightarrow> Resolved False
             | Json json_isPro json_plan \<Rightarrow>
                 if \<not> json_isPro then Resolved False
                 else
                   (case json_plan of
                      None \<Rightarrow> FalsyPlan
                    | Some p \<Rightarrow>
                        if p = [] then FalsyPlan
                        else Resolved (toLowerCase p \<in> set [''lifetime'', ''monthly'']))))"

text \<open>\<open>setProStatus\<close> called with that falsy value: \<open>_isPro\<close> becomes falsy, the
  stored pro flag is removed (\<^verbatim>\<open>undefined\<close>) or becomes the empty string, which every
  later read takes for false as it takes the absent key; \<^verbatim>\<open>val === true\<close> fails.\<close>

definition setProStatus_falsy :: "world \<Rightarrow> world" where
  "setProStatus_falsy w =
     (let w1 = w\<lparr>p_isPro := False\<rparr> in
      if p_context w1 \<noteq> Null
      then w1\<lparr>globalState := (globalState w1)\<lparr>pro_state := None\<rparr>\<rparr>
      else w1)"

text \<open>What \<open>activate\<close> does when its license check resolves to \<open>isValid\<close>. The
  test \<^verbatim>\<open>payment.isPro() !== isValid\<close> is strict: against the falsy value that is no
  boolean it holds whatever the pro flag is.\<close>

definition licenseVerified :: "resolved \<Rightarrow> int \<Rightarrow> world \<Rightarrow> error + world" where
  "licenseVerified isValid now w =
     (if (case isValid of Resolved b \<Rightarrow> isPro w \<noteq> b | FalsyPlan \<Rightarrow> True) then
        let w1 = (case isValid of Resolved b \<Rightarrow> setProStatus b w
                  | FalsyPlan \<Rightarrow> setProStatus_falsy w);
            w2 = (if cdpHandler w1 then emit (CdpSetProStatus (truthy isValid)) w1 else w1)
        in if \<not> truthy isValid then
             (case isTrialActive w2 now of
                Inl e \<Rightarrow> Inl e
              | Inr active \<Rightarrow>
                  Inr (updateStatusBar (if \<not> active then w2\<lparr>pollFrequency := 300\<rparr> else w2)))
           else Inr (updateStatusBar w2)
      else Inr w)"

datatype choice = Enable | DontShowAgainAndEnable | Cancel | Dismissed

definition handleBackgroundToggle :: "int \<Rightarrow> bool \<Rightarrow> choice \<Rightarrow> world \<Rightarrow> error + world" where
  "handleBackgroundToggle now cdpAvail choice w =
     (case hasProAccess w now of
        Inl e \<Rightarrow> Inl e
      | Inr access \<Rightarrow>
          if \<not> access then Inr (emit ProFeatureDenial w)
          else
            let cdpAvailable = (if cdpHandler w then cdpAvail else False) in
            if \<not> backgroundModeEnabled w \<and> \<not> cdpAvailable \<and> relauncher w
            then Inr (emit SetupFlow w)
            else
              let dontShowAgain =
                    (case background_dont_show (globalState w) of None \<Rightarrow> False | Some b \<Rightarrow> b)
              in if \<not> dontShowAgain \<and> \<not> backgroundModeEnabled w then
                   let w1 = emit BackgroundConfirmDialog w in
                   if choice = Cancel \<or> choice = Dismissed then Inr w1
                   else
                     let w2 = (if choice = DontShowAgainAndEnable
                               then w1\<lparr>globalState :=
                                         (globalState w1)\<lparr>background_dont_show := Some True\<rparr>\<rparr>
                               else w1);
                         w3 = w2\<lparr>backgroundModeEnabled := True\<rparr>;
                         w4 = w3\<lparr>globalState := (globalState w3)\<lparr>background_mode := Some True\<rparr>\<rparr>
                     in Inr (updateStatusBar w4)
                 else
                   let w1 = w\<lparr>backgroundModeEnabled := \<not> backgroundModeEnabled w\<rparr>;
                       w2 = w1\<lparr>globalState :=
                                 (globalState w1)\<lparr>background_mode := Some (backgroundModeEnabled w1)\<rparr>\<rparr>;
                       w3 = (if \<not> backgroundModeEnabled w2 \<and> cdpHandler w2 \<and> isEnabled w2
                             then syncSessions now (emit CdpStop w2)
                             else if backgroundModeEnabled w2 \<and> cdpHandler w2 \<and> isEnabled w2
                             then syncSessions now w2
                             else w2);
                       w4 = (if \<not> backgroundModeEnabled w3 \<and> cdpHandler w3
                             then emit HideBackgroundOverlay w3 else w3)
                   in Inr (updateStatusBar w4))"

text \<open>A window of a paying user, switched on, polling once a second; and a window of a
  paying user as \<open>activate\<close> leaves it when the extension is switched off and neither
  the browser driver nor the relauncher could be loaded (their \<^verbatim>\<open>require\<close> threw and
  was caught), with the confirmation dialog switched off. Both have the user's identifier
  and the pro flag in the store.\<close>

definition paid_window :: world where
  "paid_window =
     startPolling 0 ((window ''me'')\<lparr>p_context := ExtensionContext, p_isPro := True,
                        pollFrequency := 1000,
                        globalState := empty_store\<lparr>enabled_global := Some True,
                                                    pro_state := Some True,
                                                    user_id := Some ''u''\<rparr>\<rparr>)"

definition bare_window :: world where
  "bare_window =
     (window ''me'')\<lparr>p_context := ExtensionContext, p_isPro := True, isEnabled := False,
        pollFrequency := 1000,
        globalState := empty_store\<lparr>pro_state := Some True, user_id := Some ''u'',
                                    background_dont_show := Some True\<rparr>\<rparr>"

section \<open>Activation and the bounded verification polling\<close>

definition ensureCDPOrPrompt :: "bool \<Rightarrow> bool \<Rightarrow> world \<Rightarrow> world \<times> bool" where
  "ensureCDPOrPrompt showPrompt cdpAvail w =
     (if \<not> cdpHandler w then (w, False)
      else if cdpAvail then (w, True)
      else (if showPrompt \<and> relauncher w then emit SetupFlow w else w, False))"

definition handlePaidActivation :: "int \<Rightarrow> bool \<Rightarrow> world \<Rightarrow> world" where
  "handlePaidActivation now cdpAvail w =
     (if \<not> isPro w then w
      else let w1 = fst (ensureCDPOrPrompt True cdpAvail w)
           in if isEnabled w1 then startPolling now w1 else w1)"

text \<open>The callback \<open>activate\<close> hands to the payment handler.\<close>

definition onProActivated :: "int \<Rightarrow> bool \<Rightarrow> world \<Rightarrow> error + world" where
  "onProActivated now cdpAvail w =
     (let w1 = (if cdpHandler w then emit (CdpSetProStatus True) w else w) in
      case getPollFrequency w1 now of
        Inl e \<Rightarrow> Inl e
      | Inr f \<Rightarrow>
          let w2 = w1\<lparr>pollFrequency := f\<rparr>;
              w3 = (if isEnabled w2 then syncSessions now w2 else w2);
              w4 = updateStatusBar w3
          in Inr (handlePaidActivation now cdpAvail w4))"

definition startProPolling :: "world \<Rightarrow> world" where
  "startProPolling w =
     (let w1 = clearTimer (proPollingTimer w) w;
          w2 = w1\<lparr>proPollingAttempts := 0\<rparr>;
          w3 = emit VerifyingNotice w2;
          (w4, h) = setInterval ProPoll 5000 w3
      in w4\<lparr>proPollingTimer := Some h\<rparr>)"

text \<open>The task of \<open>_proPollingTimer\<close>, for a tick whose request is answered before
  anything else happens. \<open>ProbeInvoked\<close> marks each call of the probe
  \<open>verifyLicense\<close>; the warning reports the session exhausted, the activation notice
  reports it succeeded.\<close>

definition proPollingTick :: "response \<Rightarrow> int \<Rightarrow> bool \<Rightarrow> world \<Rightarrow> error + world" where
  "proPollingTick resp now cdpAvail w =
     (let w1 = w\<lparr>proPollingAttempts := Suc (proPollingAttempts w)\<rparr> in
      if proPollingAttempts w1 > MAX_PRO_POLLING_ATTEMPTS then
        Inr (emit PollingExhaustedWarning
               ((clearTimer (proPollingTimer w1) w1)\<lparr>proPollingTimer := None\<rparr>))
      else
        case verifyLicense resp (emit ProbeInvoked w1) of (w2, isProNow) \<Rightarrow>
          if isProNow then
            let w3 = (clearTimer (proPollingTimer w2) w2)\<lparr>proPollingTimer := None\<rparr>;
                w4 = w3\<lparr>p_isPro := True\<rparr>
            in case context_globalState w4 of
                 Inl e \<Rightarrow> Inl e
               | Inr gs \<Rightarrow>
                   let w5 = w4\<lparr>globalState := gs\<lparr>pro_state := Some True\<rparr>\<rparr> in
                   (case (if p_callbacks w5 then onProActivated now cdpAvail w5 else Inr w5) of
                      Inl e \<Rightarrow> Inl e
                    | Inr w6 \<Rightarrow> Inr (emit ProActivatedNotice w6))
          else Inr w2)"

definition activatePro :: "response \<Rightarrow> int \<Rightarrow> bool \<Rightarrow> world \<Rightarrow> error + world" where
  "activatePro resp now cdpAvail w =
     (case verifyLicense resp w of (w1, isProNow) \<Rightarrow>
        if isProNow then
          let w2 = w1\<lparr>p_isPro := True\<rparr> in
          case context_globalState w2 of
            Inl e \<Rightarrow> Inl e
          | Inr gs \<Rightarrow>
              let w3 = w2\<lparr>globalState := gs\<lparr>pro_state := Some True\<rparr>\<rparr>;
                  w4 = w3\<lparr>globalState := (globalState w3)
                          \<lparr>frequency := Some (case frequency (globalState w3) of
                                                None \<Rightarrow> 1000 | Some f \<Rightarrow> f)\<rparr>\<rparr>
              in (case (if p_callbacks w4 then onProActivated now cdpAvail w4 else Inr w4) of
                    Inl e \<Rightarrow> Inl e
                  | Inr w5 \<Rightarrow> Inr (emit ProActivatedNotice w5))
        else Inr (startProPolling w1))"

text \<open>The callback of the interval is \<^verbatim>\<open>async\<close>: it runs up to
  \<^verbatim>\<open>await verifyLicense()\<close> and returns; the rest runs when the request is answered,
  and the interval may fire again before that. \<open>proPollingTick_begin\<close> is the part
  before the \<^verbatim>\<open>await\<close>, with whether a request is now in flight;
  \<open>proPollingTick_resume\<close> is the part after it. The callback keeps nothing of its
  own across the \<^verbatim>\<open>await\<close>: what it reads afterwards are the variables of the
  module, as they are by then. The later \<^verbatim>\<open>await\<close>s of the second part are run
  through undisturbed. \<open>proPollingTick\<close> above is the tick whose request is answered
  before anything else happens.\<close>

definition proPollingTick_begin :: "world \<Rightarrow> world \<times> bool" where
  "proPollingTick_begin w =
     (let w1 = w\<lparr>proPollingAttempts := Suc (proPollingAttempts w)\<rparr> in
      if proPollingAttempts w1 > MAX_PRO_POLLING_ATTEMPTS then
        (emit PollingExhaustedWarning
           ((clearTimer (proPollingTimer w1) w1)\<lparr>proPollingTimer := None\<rparr>), False)
      else verifyLicense_send (emit ProbeInvoked w1))"

definition proPollingTick_resume :: "response \<Rightarrow> int \<Rightarrow> bool \<Rightarrow> world \<Rightarrow> error + world" where
  "proPollingTick_resume resp now cdpAvail w =
     (case verifyLicense_receive resp w of (w2, isProNow) \<Rightarrow>
        if isProNow then
          let w3 = (clearTimer (proPollingTimer w2) w2)\<lparr>proPollingTimer := None\<rparr>;
              w4 = w3\<lparr>p_isPro := True\<rparr>
          in case context_globalState w4 of
               Inl e \<Rightarrow> Inl e
             | Inr gs \<Rightarrow>
                 let w5 = w4\<lparr>globalState := gs\<lparr>pro_state := Some True\<rparr>\<rparr> in
                 (case (if p_callbacks w5 then onProActivated now cdpAvail w5 else Inr w5) of
                    Inl e \<Rightarrow> Inl e
                  | Inr w6 \<Rightarrow> Inr (emit ProActivatedNotice w6))
        else Inr w2)"

definition occurrences :: "effect \<Rightarrow> world \<Rightarrow> nat" where
  "occurrences e w = length (filter (\<lambda>x. x = e) (effects w))"

text \<open>How often the probe was called, the exhaustion warning shown and the activation
  notice shown, so far.\<close>

definition tally :: "world \<Rightarrow> nat \<times> nat \<times> nat" where
  "tally w = (occurrences ProbeInvoked w, occurrences PollingExhaustedWarning w,
              occurrences ProActivatedNotice w)"

text \<open>One polling session is the interval that \<open>startProPolling\<close> installed, with
  handle \<open>h\<close>. The host fires it while it is installed, whatever \<open>_proPollingTimer\<close>
  holds: only \<open>clearInterval\<close> on \<open>h\<close> ends it. Beside the state the session has
  the number of license requests in flight. An answer reaches the second part of a tick
  whose request is in flight; with the answer come the clock and whether a browser
  session can be reached then.\<close>

datatype poll_event = IntervalFires | ProbeAnswers response int bool

definition interval_installed :: "nat \<Rightarrow> world \<Rightarrow> bool" where
  "interval_installed h w \<longleftrightarrow> h \<in> set (map handle (live_timers w))"

fun poll_step :: "nat \<Rightarrow> poll_event \<Rightarrow> world \<times> nat \<Rightarrow> error + world \<times> nat" where
  "poll_step h IntervalFires (w, inflight) =
     (if interval_installed h w then
        (case proPollingTick_begin w of
           (w', sent) \<Rightarrow> Inr (w', if sent then Suc inflight else inflight))
      else Inr (w, inflight))"
| "poll_step h (ProbeAnswers resp now cdpAvail) (w, inflight) =
     (if inflight = 0 then Inr (w, inflight)
      else case proPollingTick_resume resp now cdpAvail w of
             Inl e \<Rightarrow> Inl e
           | Inr w' \<Rightarrow> Inr (w', inflight - 1))"

fun poll_all :: "nat \<Rightarrow> poll_event list \<Rightarrow> world \<times> nat \<Rightarrow> error + world \<times> nat" where
  "poll_all h [] s = Inr s"
| "poll_all h (ev # evs) s =
     (case poll_step h ev s of Inl e \<Rightarrow> Inl e | Inr s' \<Rightarrow> poll_all h evs s')"

text \<open>The interval with handle \<open>h\<close> is gone for good: it is not installed, and its
  handle is below those \<open>setInterval\<close> still gives out.\<close>

definition retired :: "nat \<Rightarrow> world \<Rightarrow> bool" where
  "retired h w \<longleftrightarrow> h < next_handle w \<and> \<not> interval_installed h w"

text \<open>What holds throughout the session with handle \<open>h\<close> that started at the tally
  \<open>t0\<close>, in whatever order the interval fires and the answers come: while the
  interval is installed \<open>_proPollingTimer\<close> refers to it; the probe was called once for
  each attempt up to the maximum; the exhaustion warning was shown once the attempts
  exceeded the maximum; and after an outcome was reported the interval is installed no
  more.\<close>

definition session_inv :: "nat \<Rightarrow> nat \<times> nat \<times> nat \<Rightarrow> world \<Rightarrow> bool" where
  "session_inv h t0 w \<longleftrightarrow>
     h < next_handle w \<and>
     (interval_installed h w \<longrightarrow> proPollingTimer w = Some h) \<and>
     proPollingAttempts w \<le> Suc MAX_PRO_POLLING_ATTEMPTS \<and>
     fst (tally w) = fst t0 + min (proPollingAttempts w) MAX_PRO_POLLING_ATTEMPTS \<and>
     fst (snd (tally w)) =
       fst (snd t0) + (if MAX_PRO_POLLING_ATTEMPTS < proPollingAttempts w then 1 else 0) \<and>
     snd (snd t0) \<le> snd (snd (tally w)) \<and>
     (MAX_PRO_POLLING_ATTEMPTS < proPollingAttempts w \<or> snd (snd t0) < snd (snd (tally w))
        \<longrightarrow> \<not> interval_installed h w)"

text \<open>The session in which every request is answered before the interval fires again.\<close>

fun in_turn :: "(response \<times> int \<times> bool) list \<Rightarrow> poll_event list" where
  "in_turn [] = []"
| "in_turn ((resp, now, cdpAvail) # rs) =
     IntervalFires # ProbeAnswers resp now cdpAvail # in_turn rs"

text \<open>A window as \<open>activate\<close> leaves it for a free user who has an identifier at
  the licensing backend and has the extension switched off. Two sessions in it, the
  interval firing every 5 s from its start at time 0. In the first the backend
  takes 7 s for each answer, and each confirms a lifetime plan: the requests of the ticks
  at 5 s and 10 s are answered at 12 s and 17 s. In the second the backend denies 23
  requests in turn and takes 7 s to confirm the 24th, sent at 120 s: the interval fires
  again at 125 s, the answer comes at 127 s.\<close>

definition known_user_window :: world where
  "known_user_window =
     (window ''me'')\<lparr>isEnabled := False, pollFrequency := 300, cdpHandler := True,
        relauncher := True, globalState := empty_store\<lparr>user_id := Some ''u''\<rparr>\<rparr>"

definition slow_backend :: "poll_event list" where
  "slow_backend =
     [IntervalFires, IntervalFires,
      ProbeAnswers (Json True (Some ''lifetime'')) 12000 False,
      ProbeAnswers (Json True (Some ''lifetime'')) 17000 False]"

definition late_answer :: "poll_event list" where
  "late_answer =
     in_turn (map (\<lambda>n. (Json False None, 5000 * int n + 100, False)) [1..<24]) @
     [IntervalFires, IntervalFires, ProbeAnswers (Json True (Some ''lifetime'')) 127000 False]"

definition slow_backend_session :: "error + world \<times> nat" where
  "slow_backend_session = poll_all 0 slow_backend (startProPolling known_user_window, 0)"

definition late_answer_session :: "error + world \<times> nat" where
  "late_answer_session = poll_all 0 late_answer (startProPolling known_user_window, 0)"

section \<open>The command surface\<close>

text \<open>\<open>handleToggle\<close> starts the trial on the first switching-on of a user who is
  not pro and has no trial start stored. Whatever is thrown inside is caught.\<close>

definition handleToggle :: "int \<Rightarrow> bool \<Rightarrow> world \<Rightarrow> world" where
  "handleToggle now cdpAvail w =
     (case (if \<not> isEnabled w \<and> \<not> isPro w then hasTrialStarted w else Inr True) of
        Inl e \<Rightarrow> w
      | Inr started \<Rightarrow>
          let w1 = (if \<not> started then emit TrialActivatedNotice (startTrial now w) else w);
              w2 = w1\<lparr>isEnabled := \<not> isEnabled w1\<rparr>;
              w3 = w2\<lparr>globalState := (globalState w2)\<lparr>enabled_global := Some (isEnabled w2)\<rparr>\<rparr>;
              w4 = updateStatusBar w3
          in if isEnabled w4
             then fst (ensureCDPOrPrompt False cdpAvail (startPolling now w4))
             else stopPolling w4)"

definition handleRelaunch :: "int \<Rightarrow> world \<Rightarrow> error + world" where
  "handleRelaunch now w =
     (if \<not> relauncher w then Inr (emit RelauncherMissingError w)
      else case hasProAccess w now of
        Inl e \<Rightarrow> Inl e
      | Inr access \<Rightarrow> if \<not> access then Inr (emit UpgradePrompt w) else Inr (emit SetupFlow w))"

definition handleBannedCommandsUpdate :: "int \<Rightarrow> string list \<Rightarrow> world \<Rightarrow> error + world" where
  "handleBannedCommandsUpdate now commands w =
     (case hasProAccess w now of
        Inl e \<Rightarrow> Inl e
      | Inr access \<Rightarrow>
          if \<not> access then Inr w
          else
            let w1 = w\<lparr>bannedCommands := commands\<rparr>;
                w2 = w1\<lparr>globalState := (globalState w1)\<lparr>banned_commands := Some commands\<rparr>\<rparr>
            in Inr (if isEnabled w2 then syncSessions now w2 else w2))"

text \<open>Everything that runs once the extension is activated: the registered commands
  and the activation link, the three timers, the hourly expiry check, and the answer to
  the license check of \<open>activate\<close>. Opening the settings panel leaves this state as it
  is. With each happening comes what the outside answers while it runs.\<close>

datatype command =
    Toggle | Relaunch | UpdateFrequency int | ToggleBackground
  | UpdateBannedCommands "string list" | GetBannedCommands | OpenSettings | ActivatePro | OnPaid

datatype happening =
    Command command
  | ActivationLink
  | CommandPollFires
  | MaintenancePollFires
  | ProPollFires
  | TrialCheckFires
  | LicenseCheckResolves resolved

record outside =
  clock :: int
  cdp_reachable :: bool
  dialog_choice :: choice
  backend :: response

fun run_command :: "outside \<Rightarrow> command \<Rightarrow> world \<Rightarrow> error + world" where
  "run_command out Toggle w = Inr (handleToggle (clock out) (cdp_reachable out) w)"
| "run_command out Relaunch w = handleRelaunch (clock out) w"
| "run_command out (UpdateFrequency freq) w = handleFrequencyUpdate (clock out) freq w"
| "run_command out ToggleBackground w =
     handleBackgroundToggle (clock out) (cdp_reachable out) (dialog_choice out) w"
| "run_command out (UpdateBannedCommands commands) w =
     handleBannedCommandsUpdate (clock out) commands w"
| "run_command out GetBannedCommands w = Inr w"
| "run_command out OpenSettings w = Inr w"
| "run_command out ActivatePro w = activatePro (backend out) (clock out) (cdp_reachable out) w"
| "run_command out OnPaid w = Inr (handlePaidActivation (clock out) (cdp_reachable out) w)"

fun happen :: "outside \<Rightarrow> happening \<Rightarrow> world \<Rightarrow> error + world" where
  "happen out (Command c) w = run_command out c w"
| "happen out ActivationLink w = activatePro (backend out) (clock out) (cdp_reachable out) w"
| "happen out CommandPollFires w = Inr (commandTick w)"
| "happen out MaintenancePollFires w = pollTick (clock out) w"
| "happen out ProPollFires w =
     proPollingTick (backend out) (clock out) (cdp_reachable out) w"
| "happen out TrialCheckFires w = checkTrialExpiration (clock out) w"
| "happen out (LicenseCheckResolves isValid) w = licenseVerified isValid (clock out) w"

fun happen_all :: "(outside \<times> happening) list \<Rightarrow> world \<Rightarrow> error + world" where
  "happen_all [] w = Inr w"
| "happen_all ((out, h) # hs) w =
     (case happen out h w of Inl e \<Rightarrow> Inl e | Inr w' \<Rightarrow> happen_all hs w')"

text \<open>What every function but \<open>startTrial\<close> leaves alone.\<close>

definition untouched :: "world \<Rightarrow> world \<Rightarrow> bool" where
  "untouched w w' \<longleftrightarrow>
     trial_start (globalState w') = trial_start (globalState w) \<and>
     globalContext w' = globalContext w \<and> p_context w' = p_context w"

text \<open>What every happening leaves alone: a trial start, once stored.\<close>

definition trial_kept :: "world \<Rightarrow> world \<Rightarrow> bool" where
  "trial_kept w w' \<longleftrightarrow>
     (trial_start (globalState w) \<noteq> None \<longrightarrow>
        trial_start (globalState w') = trial_start (globalState w)) \<and>
     globalContext w' = globalContext w \<and> p_context w' = p_context w"

text \<open>A window of a free user whose trial started at time 1000.\<close>

definition trial_window :: world where
  "trial_window = (window ''me'')\<lparr>globalState := empty_store\<lparr>trial_start := Some 1000\<rparr>\<rparr>"

definition at_time :: "int \<Rightarrow> outside" where
  "at_time t = \<lparr>clock = t, cdp_reachable = False, dialog_choice = Enable,
                 backend = NetworkError\<rparr>"

text \<open>Two windows of the one extension: both carry the extension's identifier.\<close>

definition two_windows :: "world list" where
  "two_windows = [window ''publisher.auto-accept'', window ''publisher.auto-accept'']"

definition alternating_ticks :: "(int \<times> nat) list" where
  "alternating_ticks =
     [(1000, 0), (2000, 1), (6000, 0), (7000, 1), (11000, 0), (12000, 1), (16000, 0), (17000, 1)]"

section \<open>Properties of the trial clock and of the uninitialised module\<close>

lemma context_globalState_set [simp]:
  "p_context w = ExtensionContext \<Longrightarrow> context_globalState w = Inr (globalState w)"
  by (simp add: context_globalState_def)

lemma isTrialActive_eq:
  "isTrialActive w now =
     Inr (p_context w \<noteq> Null \<and>
          (\<exists>t. trial_start (globalState w) = Some t \<and> t \<noteq> 0 \<and> now - t < TRIAL_DURATION_MS))"
  by (cases "p_context w")
     (auto simp: isTrialActive_def context_globalState_def split: option.splits)

text \<open>
  Claim C6. With the module initialised and a trial start \<open>t\<close> recorded (any stored
  value but \<open>0\<close>, which the test \<^verbatim>\<open>!trialStart\<close> takes for an absent one),
  \<open>isTrialActive\<close> at time \<open>now\<close> is true exactly when \<open>now - t\<close> is below the
  three days of the trial: true one millisecond before the end, false one millisecond
  after it. With no trial start recorded it is false.
\<close>

theorem isTrialActive_window:
  "p_context w = ExtensionContext \<Longrightarrow>
     (trial_start (globalState w) = Some t \<and> t \<noteq> 0 \<longrightarrow>
        isTrialActive w now = Inr (now - t < 3 * 24 * 60 * 60 * 1000) \<and>
        isTrialActive w (t + TRIAL_DURATION_MS - 1) = Inr True \<and>
        isTrialActive w (t + TRIAL_DURATION_MS + 1) = Inr False) \<and>
     (trial_start (globalState w) = None \<longrightarrow> isTrialActive w now = Inr False)"
  by (simp add: isTrialActive_eq) (simp add: TRIAL_DURATION_MS_def)

theorem isTrialActive_window_witness:
  "p_context ((module_load (empty_store\<lparr>trial_start := Some 1000\<rparr>) ''a'')\<lparr>p_context := ExtensionContext\<rparr>)
     = ExtensionContext \<and>
   isTrialActive ((module_load (empty_store\<lparr>trial_start := Some 1000\<rparr>) ''a'')\<lparr>p_context := ExtensionContext\<rparr>)
     259200999 = Inr True \<and>
   isTrialActive ((module_load (empty_store\<lparr>trial_start := Some 1000\<rparr>) ''a'')\<lparr>p_context := ExtensionContext\<rparr>)
     259201001 = Inr False"
proof -
  let ?w = "(module_load (empty_store\<lparr>trial_start := Some 1000\<rparr>) ''a'')\<lparr>p_context := ExtensionContext\<rparr>"
  have c: "p_context ?w = ExtensionContext" by simp
  have t: "trial_start (globalState ?w) = Some 1000 \<and> (1000::int) \<noteq> 0"
    by (simp add: module_load_def)
  from isTrialActive_window [OF c, of 1000 0] t c show ?thesis
    by (simp add: TRIAL_DURATION_MS_def)
qed

text \<open>
  Claim C9. In the module's state before \<open>init\<close> (no context stored, pro flag
  false as the module declares it) every entitlement query returns its default and
  none throws: \<open>isTrialActive\<close>, \<open>hasTrialStarted\<close> and \<open>hasProAccess\<close> give false,
  \<open>getTrialDaysLeft\<close> gives 0, \<open>getPollFrequency\<close> gives 300, and
  \<open>verifyLicense\<close> resolves to false whatever the backend would answer, without
  sending a request or changing any state.
\<close>

theorem uninitialised_queries_total:
  "p_context w = Null \<Longrightarrow> \<not> p_isPro w \<Longrightarrow>
     isTrialActive w now = Inr False \<and>
     hasTrialStarted w = Inr False \<and>
     hasProAccess w now = Inr False \<and>
     getTrialDaysLeft w now = Inr 0 \<and>
     getPollFrequency w now = Inr 300 \<and>
     verifyLicense resp w = (w, False)"
  by (simp add: isTrialActive_def hasTrialStarted_def hasProAccess_def getTrialDaysLeft_def
        getPollFrequency_def verifyLicense_def)

theorem uninitialised_queries_total_witness:
  "p_context (module_load empty_store ''a'') = Null \<and>
   \<not> p_isPro (module_load empty_store ''a'') \<and>
   hasProAccess (module_load empty_store ''a'') 5 = Inr False \<and>
   getPollFrequency (module_load empty_store ''a'') 5 = Inr 300 \<and>
   verifyLicense (Json True (Some ''lifetime'')) (module_load empty_store ''a'')
     = (module_load empty_store ''a'', False)"
proof -
  have c: "p_context (module_load empty_store ''a'') = Null"
    by (simp add: module_load_def)
  have p: "\<not> p_isPro (module_load empty_store ''a'')"
    by (simp add: module_load_def)
  from uninitialised_queries_total [OF c p, of 5 "Json True (Some ''lifetime'')"] c p
  show ?thesis by simp
qed

section \<open>The expiry notice and the round trip through the store\<close>

lemma checkTrialExpiration_cases:
  "checkTrialExpiration now w = Inr w \<or>
   (\<not> hasNotified w \<and> p_context w = ExtensionContext \<and> \<not> p_isPro w \<and>
    checkTrialExpiration now w =
      Inr (emit TrialExpiredNotice (w\<lparr>globalState := (globalState w)\<lparr>trial_notified := Some True\<rparr>\<rparr>)))"
  by (cases "p_context w")
     (auto simp: checkTrialExpiration_def isTrialActive_eq hasNotified_def Let_def
           split: option.splits)

lemma checkTrialExpiration_pending:
  "\<exists>w'. checkTrialExpiration now w = Inr w' \<and> pending w' \<le> pending w \<and> notices w \<le> notices w'
     \<and> p_context w' = p_context w \<and> p_isPro w' = p_isPro w
     \<and> trial_start (globalState w') = trial_start (globalState w)
     \<and> pro_state (globalState w') = pro_state (globalState w)"
proof -
  let ?w' = "emit TrialExpiredNotice (w\<lparr>globalState := (globalState w)\<lparr>trial_notified := Some True\<rparr>\<rparr>)"
  consider (same) "checkTrialExpiration now w = Inr w"
    | (notify) "\<not> hasNotified w" "checkTrialExpiration now w = Inr ?w'"
    using checkTrialExpiration_cases [of now w] by blast
  then show ?thesis
  proof cases
    case same
    then show ?thesis by simp
  next
    case notify
    have "pending ?w' \<le> pending w" "notices w \<le> notices ?w'"
      using notify(1) by (simp_all add: pending_def notices_def hasNotified_def emit_def)
    moreover have "p_context ?w' = p_context w" "p_isPro ?w' = p_isPro w"
      "trial_start (globalState ?w') = trial_start (globalState w)"
      "pro_state (globalState ?w') = pro_state (globalState w)"
      by (simp_all add: emit_def)
    ultimately show ?thesis using notify(2) by simp
  qed
qed








lemma checkTrialExpiration_synced:
  assumes "synced w"
  shows "\<exists>w'. checkTrialExpiration now w = Inr w' \<and> synced w' \<and>
           p_isPro w' = p_isPro w \<and> trial_start (globalState w') = trial_start (globalState w)"
proof -
  from checkTrialExpiration_pending [of now w] obtain w'
    where "checkTrialExpiration now w = Inr w'" "p_context w' = p_context w"
      "p_isPro w' = p_isPro w" "trial_start (globalState w') = trial_start (globalState w)"
      "pro_state (globalState w') = pro_state (globalState w)"
    by blast
  with assms show ?thesis by (simp add: synced_def)
qed

lemma init_synced:
  "\<exists>w'. init now w = Inr w' \<and> synced w' \<and>
        p_isPro w' = (pro_state (globalState w) = Some True) \<and>
        trial_start (globalState w') = trial_start (globalState w)"
proof -
  let ?w0 = "w\<lparr>p_context := ExtensionContext,
          p_isPro := (case pro_state (globalState w) of None \<Rightarrow> False | Some b \<Rightarrow> b)\<rparr>"
  have s0: "synced ?w0" by (simp add: synced_def split: option.split)
  have p0: "p_isPro ?w0 = (pro_state (globalState w) = Some True)"
    by (simp split: option.split)
  from checkTrialExpiration_synced [OF s0, of now] p0 show ?thesis
    by (simp add: init_def)
qed

lemma setProStatus_synced: "synced w \<Longrightarrow> synced (setProStatus val w)"
  by (simp add: synced_def setProStatus_def Let_def)

lemma startTrial_synced: "synced w \<Longrightarrow> synced (startTrial now w)"
  by (simp add: synced_def startTrial_def)

lemma verifyLicense_keeps:
  "p_context (fst (verifyLicense resp w)) = p_context w \<and>
   p_isPro (fst (verifyLicense resp w)) = p_isPro w \<and>
   pro_state (globalState (fst (verifyLicense resp w))) = pro_state (globalState w) \<and>
   trial_start (globalState (fst (verifyLicense resp w))) = trial_start (globalState w)"
  by (simp add: verifyLicense_def emit_def Let_def split: option.split response.split)

lemma verifyLicense_synced: "synced w \<Longrightarrow> synced (fst (verifyLicense resp w))"
  by (simp add: synced_def verifyLicense_keeps)

lemma payment_step_synced:
  assumes "synced w"
  shows "\<exists>w'. payment_step c w = Inr w' \<and> synced w'"
proof (cases c)
  case (Init now)
  then show ?thesis using init_synced [of now w] by auto
next
  case (CheckTrialExpiration now)
  then show ?thesis using checkTrialExpiration_synced [OF assms, of now] by auto
next
  case (SetProStatus val)
  then show ?thesis using setProStatus_synced [OF assms] by simp
next
  case (StartTrial now)
  then show ?thesis using startTrial_synced [OF assms] by simp
next
  case (VerifyLicense resp)
  then show ?thesis using verifyLicense_synced [OF assms] by simp
qed

lemma payment_run_synced:
  "synced w \<Longrightarrow> \<exists>w'. payment_run cs w = Inr w' \<and> synced w'"
proof (induction cs arbitrary: w)
  case Nil
  then show ?case by simp
next
  case (Cons c cs)
  from payment_step_synced [OF Cons.prems, of c] obtain w1
    where "payment_step c w = Inr w1" "synced w1" by blast
  with Cons.IH [of w1] show ?case by simp
qed

lemma hasProAccess_synced:
  "synced w \<Longrightarrow>
   hasProAccess w now =
     Inr (pro_state (globalState w) = Some True \<or>
          (\<exists>t. trial_start (globalState w) = Some t \<and> t \<noteq> 0 \<and> now - t < TRIAL_DURATION_MS))"
  by (simp add: hasProAccess_def isTrialActive_eq synced_def)

text \<open>
  Claim C8. Take any state the payment handler reaches from \<open>init\<close> by calls of
  its functions, so that the pro flag and the trial start are in the store. Loading the
  module afresh over that store and calling \<open>init\<close> again gives a state in which
  \<open>hasProAccess\<close>, asked at any instant \<open>now\<close>, answers what it answered
  before the restart at that instant. None of the calls throws.
\<close>

theorem entitlement_round_trip:
  "\<exists>w w'. payment_run (Init t0 # cs) (module_load kv i) = Inr w \<and>
          init t1 (module_load (globalState w) i) = Inr w' \<and>
          hasProAccess w' now = hasProAccess w now"
proof -
  from init_synced [of t0 "module_load kv i"] obtain w0
    where "init t0 (module_load kv i) = Inr w0" "synced w0" by blast
  moreover from payment_run_synced [OF \<open>synced w0\<close>, of cs] obtain w
    where w: "payment_run cs w0 = Inr w" "synced w" by blast
  ultimately have run: "payment_run (Init t0 # cs) (module_load kv i) = Inr w" by simp
  from init_synced [of t1 "module_load (globalState w) i"] obtain w'
    where w': "init t1 (module_load (globalState w) i) = Inr w'" "synced w'"
      "p_isPro w' = (pro_state (globalState (module_load (globalState w) i)) = Some True)"
      "trial_start (globalState w') = trial_start (globalState (module_load (globalState w) i))"
    by blast
  have "pro_state (globalState w') = Some True \<longleftrightarrow> pro_state (globalState w) = Some True"
    using w'(2,3) w(2) by (simp add: synced_def module_load_def)
  moreover have "trial_start (globalState w') = trial_start (globalState w)"
    using w'(4) by (simp add: module_load_def)
  ultimately have "hasProAccess w' now = hasProAccess w now"
    by (simp add: hasProAccess_synced [OF w'(2)] hasProAccess_synced [OF w(2)])
  with run w'(1) show ?thesis by blast
qed



section \<open>The instance lock\<close>

lemma syncSessions_frame:
  "globalState (syncSessions now w) = globalState w \<and>
   isLockedOut (syncSessions now w) = isLockedOut w \<and>
   isEnabled (syncSessions now w) = isEnabled w \<and>
   extension_id (syncSessions now w) = extension_id w \<and>
   globalContext (syncSessions now w) = globalContext w"
  by (simp add: syncSessions_def emit_def split: sum.split)

lemma pollTick_unfold:
  assumes "isEnabled w" "globalContext w = ExtensionContext"
  shows "pollTick now w =
     (if held_by_other now (extension_id w) (globalState w)
      then Inr (if \<not> isLockedOut w then updateStatusBar (w\<lparr>isLockedOut := True\<rparr>) else w)
      else Inr (syncSessions now
                 (let w1 = w\<lparr>globalState := (globalState w)\<lparr>ide_lock := Some (extension_id w),
                                  ide_lock_ping := Some now\<rparr>\<rparr>
                  in if isLockedOut w1 then updateStatusBar (w1\<lparr>isLockedOut := False\<rparr>) else w1)))"
  unfolding pollTick_def held_by_other_def globalContext_globalState_def Let_def
  using assms by simp

lemma pollTick_result:
  assumes "isEnabled w" "globalContext w = ExtensionContext"
  shows "\<exists>w'. pollTick now w = Inr w' \<and>
           isEnabled w' \<and> globalContext w' = ExtensionContext \<and>
           extension_id w' = extension_id w \<and>
           (if held_by_other now (extension_id w) (globalState w)
            then isLockedOut w' \<and> globalState w' = globalState w
            else \<not> isLockedOut w' \<and>
                 globalState w' = (globalState w)\<lparr>ide_lock := Some (extension_id w),
                                     ide_lock_ping := Some now\<rparr>)"
proof (cases "held_by_other now (extension_id w) (globalState w)")
  case True
  from pollTick_unfold [OF assms, of now] True assms show ?thesis
    by (simp add: updateStatusBar_def emit_def)
next
  case False
  from pollTick_unfold [OF assms, of now] False assms show ?thesis
    by (simp add: syncSessions_frame Let_def updateStatusBar_def emit_def)
qed



lemma pollTick_summary:
  assumes "globalContext w = ExtensionContext"
  shows "\<exists>w'. pollTick now w = Inr w' \<and> extension_id w' = extension_id w \<and>
           isEnabled w' = isEnabled w \<and> globalContext w' = ExtensionContext \<and>
           ((globalState w' = globalState w \<and> (isEnabled w' \<longrightarrow> isLockedOut w')) \<or>
            (\<not> held_by_other now (extension_id w) (globalState w) \<and>
             globalState w' = (globalState w)\<lparr>ide_lock := Some (extension_id w),
                                 ide_lock_ping := Some now\<rparr>))"
proof (cases "isEnabled w")
  case False
  then have "pollTick now w = Inr w" by (simp add: pollTick_def)
  with False assms show ?thesis by simp
next
  case True
  from pollTick_result [OF True assms, of now] obtain w'
    where r: "pollTick now w = Inr w'" "isEnabled w'" "globalContext w' = ExtensionContext"
      "extension_id w' = extension_id w"
      "if held_by_other now (extension_id w) (globalState w)
       then isLockedOut w' \<and> globalState w' = globalState w
       else \<not> isLockedOut w' \<and>
            globalState w' = (globalState w)\<lparr>ide_lock := Some (extension_id w),
                                ide_lock_ping := Some now\<rparr>"
    by blast
  show ?thesis
  proof (cases "held_by_other now (extension_id w) (globalState w)")
    case h: True
    with r True show ?thesis by simp
  next
    case h: False
    with r True show ?thesis by simp
  qed
qed

lemma fire_all_append:
  "fire_all (xs @ ys) sys =
     (case fire_all xs sys of Inl e \<Rightarrow> Inl e | Inr sys' \<Rightarrow> fire_all ys sys')"
  by (induction xs arbitrary: sys) (simp_all split: sum.split)

lemma last_fired_snoc:
  "last_fired i (evs @ [(now, k)]) = (if k = i then Some now else last_fired i evs)"
  by (induction evs) (auto split: option.split)

lemma last_fired_mem: "last_fired i evs = Some t \<Longrightarrow> t \<in> fst ` set evs"
  by (induction evs) (auto split: option.splits if_splits)

lemma in_time_order_snoc:
  assumes "in_time_order kv0 (evs @ [(now, k)])"
  shows "in_time_order kv0 evs" "\<forall>t \<in> fst ` set evs. t \<le> now \<and> 0 < t" "0 < now"
    "\<forall>p. ide_lock_ping kv0 = Some p \<longrightarrow> p \<le> now"
  using assms by (auto simp: in_time_order_def sorted_append)

lemma takeover_late:
  assumes wf: "distinct_instances ws0"
    and ord: "in_time_order kv0 (evs @ [(now, k)])"
    and fr: "frame_ok ws0 ws" and pf: "ping_from kv0 evs kv"
    and hi: "holder_inv ws0 evs kv ws"
    and k: "k < length ws0"
    and free: "\<not> held_by_other now (extension_id (ws0 ! k)) kv"
    and i: "i \<noteq> k" "reports_leader ws i" "last_fired i evs = Some ti"
  shows "ti + 15000 \<le> now"
proof -
  from i(2) fr have il: "i < length ws0" by (simp add: reports_leader_def frame_ok_def)
  from hi i(2,3) obtain p where p: "ide_lock_ping kv = Some p"
    and alt: "(ide_lock kv = Some (extension_id (ws0 ! i)) \<and> p = ti) \<or> ti + 15000 \<le> p"
    unfolding holder_inv_def by blast
  from in_time_order_snoc [OF ord] have times: "\<forall>t \<in> fst ` set evs. t \<le> now \<and> 0 < t"
    and p0: "\<forall>p. ide_lock_ping kv0 = Some p \<longrightarrow> p \<le> now" by blast+
  from pf p have "ide_lock_ping kv0 = Some p \<or> p \<in> fst ` set evs"
    unfolding ping_from_def by blast
  with times p0 have pnow: "p \<le> now" by blast
  from last_fired_mem [OF i(3)] times have tpos: "0 < ti" by blast
  from alt show ?thesis
  proof
    assume "ti + 15000 \<le> p"
    with pnow show ?thesis by simp
  next
    assume own: "ide_lock kv = Some (extension_id (ws0 ! i)) \<and> p = ti"
    from wf have "distinct (map extension_id ws0)" by (simp add: distinct_instances_def)
    from nth_eq_iff_index_eq [OF this, of i k] il k i(1)
    have ne: "extension_id (ws0 ! i) \<noteq> extension_id (ws0 ! k)" by simp
    from wf il have nonempty: "extension_id (ws0 ! i) \<noteq> []"
      by (simp add: distinct_instances_def)
    from free own ne nonempty p tpos show ?thesis
      by (simp add: held_by_other_def truthy_string_def)
  qed
qed

lemma fire_step:
  assumes wf: "distinct_instances ws0"
    and ord: "in_time_order kv0 (evs @ [(now, k)])"
    and fr: "frame_ok ws0 ws" and pf: "ping_from kv0 evs kv"
    and hi: "holder_inv ws0 evs kv ws" and ai: "apart_inv evs ws"
  shows "\<exists>kv' ws'. fire (now, k) (kv, ws) = Inr (kv', ws') \<and> frame_ok ws0 ws' \<and>
           ping_from kv0 (evs @ [(now, k)]) kv' \<and>
           holder_inv ws0 (evs @ [(now, k)]) kv' ws' \<and>
           apart_inv (evs @ [(now, k)]) ws'"
proof (cases "k < length ws")
  case False
  then have f: "fire (now, k) (kv, ws) = Inr (kv, ws)" by (simp add: fire_def)
  have lf: "\<And>i. reports_leader ws i \<Longrightarrow> last_fired i (evs @ [(now, k)]) = last_fired i evs"
    using False by (auto simp: last_fired_snoc reports_leader_def)
  have "ping_from kv0 (evs @ [(now, k)]) kv" using pf by (auto simp: ping_from_def)
  moreover have "holder_inv ws0 (evs @ [(now, k)]) kv ws"
    using hi lf unfolding holder_inv_def by simp
  moreover have "apart_inv (evs @ [(now, k)]) ws"
    using ai lf unfolding apart_inv_def by simp
  ultimately show ?thesis using f fr by simp
next
  case True
  with fr have k0: "k < length ws0" by (simp add: frame_ok_def)
  let ?w = "(ws ! k)\<lparr>globalState := kv\<rparr>"
  from fr k0 have ctx: "globalContext ?w = ExtensionContext" by (simp add: frame_ok_def)
  from pollTick_summary [OF ctx, of now] obtain w'
    where tick: "pollTick now ?w = Inr w'"
      and keep: "extension_id w' = extension_id ?w" "isEnabled w' = isEnabled ?w"
        "globalContext w' = ExtensionContext"
      and alt: "(globalState w' = globalState ?w \<and> (isEnabled w' \<longrightarrow> isLockedOut w')) \<or>
            (\<not> held_by_other now (extension_id ?w) (globalState ?w) \<and>
             globalState w' = (globalState ?w)\<lparr>ide_lock := Some (extension_id ?w),
                                 ide_lock_ping := Some now\<rparr>)"
    by blast
  let ?ws = "ws[k := w']"
  from tick True have f: "fire (now, k) (kv, ws) = Inr (globalState w', ?ws)"
    by (simp add: fire_def)
  have fr': "frame_ok ws0 ?ws"
    using fr keep True by (simp add: frame_ok_def nth_list_update)
  have other: "\<And>i. i \<noteq> k \<Longrightarrow> reports_leader ?ws i = reports_leader ws i"
    by (simp add: reports_leader_def)
  have lf: "\<And>i. i \<noteq> k \<Longrightarrow> last_fired i (evs @ [(now, k)]) = last_fired i evs"
    by (simp add: last_fired_snoc)
  have lk: "last_fired k (evs @ [(now, k)]) = Some now" by (simp add: last_fired_snoc)
  from fr k0 have idk: "extension_id ?w = extension_id (ws0 ! k)" by (simp add: frame_ok_def)
  from alt show ?thesis
  proof
    assume a: "globalState w' = globalState ?w \<and> (isEnabled w' \<longrightarrow> isLockedOut w')"
    then have kv': "globalState w' = kv" by simp
    from a True have nk: "\<not> reports_leader ?ws k" by (simp add: reports_leader_def)
    have "ping_from kv0 (evs @ [(now, k)]) kv" using pf by (auto simp: ping_from_def)
    moreover have "holder_inv ws0 (evs @ [(now, k)]) kv ?ws"
      unfolding holder_inv_def
    proof (intro allI impI)
      fix i ti
      assume r: "reports_leader ?ws i" and l: "last_fired i (evs @ [(now, k)]) = Some ti"
      from r nk have ik: "i \<noteq> k" by blast
      with r l other lf have "reports_leader ws i" "last_fired i evs = Some ti" by simp_all
      with hi show "\<exists>p. ide_lock_ping kv = Some p \<and>
           ((ide_lock kv = Some (extension_id (ws0 ! i)) \<and> p = ti) \<or> ti + 15000 \<le> p)"
        unfolding holder_inv_def by blast
    qed
    moreover have "apart_inv (evs @ [(now, k)]) ?ws"
      unfolding apart_inv_def
    proof (intro allI impI)
      fix i j ti tj
      assume ij: "i \<noteq> j" and ri: "reports_leader ?ws i" and rj: "reports_leader ?ws j"
        and li: "last_fired i (evs @ [(now, k)]) = Some ti"
        and lj: "last_fired j (evs @ [(now, k)]) = Some tj"
      from ri rj nk have "i \<noteq> k" "j \<noteq> k" by blast+
      with ri rj li lj other lf have "reports_leader ws i" "reports_leader ws j"
        "last_fired i evs = Some ti" "last_fired j evs = Some tj" by simp_all
      with ai ij show "ti + 15000 \<le> tj \<or> tj + 15000 \<le> ti"
        unfolding apart_inv_def by blast
    qed
    ultimately show ?thesis using f fr' kv' by simp
  next
    assume b: "\<not> held_by_other now (extension_id ?w) (globalState ?w) \<and>
             globalState w' = (globalState ?w)\<lparr>ide_lock := Some (extension_id ?w),
                                 ide_lock_ping := Some now\<rparr>"
    let ?kv = "kv\<lparr>ide_lock := Some (extension_id (ws0 ! k)), ide_lock_ping := Some now\<rparr>"
    from b idk have kv': "globalState w' = ?kv" by simp
    from b idk have free: "\<not> held_by_other now (extension_id (ws0 ! k)) kv" by simp
    have late: "\<And>i ti. i \<noteq> k \<Longrightarrow> reports_leader ?ws i \<Longrightarrow>
                 last_fired i (evs @ [(now, k)]) = Some ti \<Longrightarrow> ti + 15000 \<le> now"
    proof -
      fix i ti
      assume ik: "i \<noteq> k" and r: "reports_leader ?ws i"
        and l: "last_fired i (evs @ [(now, k)]) = Some ti"
      with other lf have "reports_leader ws i" "last_fired i evs = Some ti" by simp_all
      from takeover_late [OF wf ord fr pf hi k0 free ik this] show "ti + 15000 \<le> now" .
    qed
    have "ping_from kv0 (evs @ [(now, k)]) ?kv" by (simp add: ping_from_def)
    moreover have "holder_inv ws0 (evs @ [(now, k)]) ?kv ?ws"
      unfolding holder_inv_def
    proof (intro allI impI)
      fix i ti
      assume r: "reports_leader ?ws i" and l: "last_fired i (evs @ [(now, k)]) = Some ti"
      show "\<exists>p. ide_lock_ping ?kv = Some p \<and>
           ((ide_lock ?kv = Some (extension_id (ws0 ! i)) \<and> p = ti) \<or> ti + 15000 \<le> p)"
      proof (cases "i = k")
        case True
        with l lk show ?thesis by simp
      next
        case False
        from late [OF False r l] show ?thesis by simp
      qed
    qed
    moreover have "apart_inv (evs @ [(now, k)]) ?ws"
      unfolding apart_inv_def
    proof (intro allI impI)
      fix i j ti tj
      assume ij: "i \<noteq> j" and ri: "reports_leader ?ws i" and rj: "reports_leader ?ws j"
        and li: "last_fired i (evs @ [(now, k)]) = Some ti"
        and lj: "last_fired j (evs @ [(now, k)]) = Some tj"
      consider (ik) "i = k" "j \<noteq> k" | (jk) "j = k" "i \<noteq> k" | (none) "i \<noteq> k" "j \<noteq> k"
        using ij by blast
      then show "ti + 15000 \<le> tj \<or> tj + 15000 \<le> ti"
      proof cases
        case ik
        from late [OF ik(2) rj lj] li lk ik(1) show ?thesis by simp
      next
        case jk
        from late [OF jk(2) ri li] lj lk jk(1) show ?thesis by simp
      next
        case none
        with ri rj li lj other lf have "reports_leader ws i" "reports_leader ws j"
          "last_fired i evs = Some ti" "last_fired j evs = Some tj" by simp_all
        with ai ij show ?thesis unfolding apart_inv_def by blast
      qed
    qed
    ultimately show ?thesis using f fr' kv' by simp
  qed
qed

lemma fire_all_invariant:
  assumes wf: "distinct_instances ws0" and ord: "in_time_order kv0 evs"
  shows "\<exists>kv ws. fire_all evs (kv0, ws0) = Inr (kv, ws) \<and> frame_ok ws0 ws \<and>
           ping_from kv0 evs kv \<and> holder_inv ws0 evs kv ws \<and> apart_inv evs ws"
  using ord
proof (induction evs rule: rev_induct)
  case Nil
  from wf have "frame_ok ws0 ws0" by (simp add: frame_ok_def distinct_instances_def)
  moreover have "ping_from kv0 [] kv0" by (simp add: ping_from_def)
  moreover have "holder_inv ws0 [] kv0 ws0" by (simp add: holder_inv_def)
  moreover have "apart_inv [] ws0" by (simp add: apart_inv_def)
  ultimately show ?case by simp
next
  case (snoc ev evs)
  obtain now k where ev: "ev = (now, k)" by (cases ev)
  from snoc.prems ev have ord': "in_time_order kv0 (evs @ [(now, k)])" by simp
  from in_time_order_snoc(1) [OF ord'] snoc.IH obtain kv ws
    where run: "fire_all evs (kv0, ws0) = Inr (kv, ws)"
      and inv: "frame_ok ws0 ws" "ping_from kv0 evs kv" "holder_inv ws0 evs kv ws"
        "apart_inv evs ws"
    by blast
  from fire_step [OF wf ord' inv] obtain kv' ws'
    where step: "fire (now, k) (kv, ws) = Inr (kv', ws')"
      and inv': "frame_ok ws0 ws'" "ping_from kv0 (evs @ [(now, k)]) kv'"
        "holder_inv ws0 (evs @ [(now, k)]) kv' ws'" "apart_inv (evs @ [(now, k)]) ws'"
    by blast
  from run step have "fire_all (evs @ [ev]) (kv0, ws0) = Inr (kv', ws')"
    by (simp add: fire_all_append ev)
  with inv' ev show ?case by simp
qed

text \<open>
  What the lock does achieve. Take any number of instances with distinct identifiers
  over one store and any schedule of their maintenance ticks in time order, each tick
  running undisturbed. The run never throws, and afterwards any two instances that both
  report themselves leader had their latest ticks at least 15 seconds apart; so of two
  instances that have both ticked within the last ten seconds at most one reports
  itself leader.
\<close>

lemma exclusive_with_distinct_identifiers:
  assumes "distinct_instances ws0" and "in_time_order kv0 evs"
  shows "\<exists>kv ws. fire_all evs (kv0, ws0) = Inr (kv, ws) \<and> length ws = length ws0 \<and>
           (\<forall>i j ti tj. i \<noteq> j \<and> reports_leader ws i \<and> reports_leader ws j \<and>
               last_fired i evs = Some ti \<and> last_fired j evs = Some tj \<longrightarrow>
               ti + 15000 \<le> tj \<or> tj + 15000 \<le> ti) \<and>
           (\<forall>i j ti tj T. i \<noteq> j \<and>
               last_fired i evs = Some ti \<and> last_fired j evs = Some tj \<and>
               ti \<le> T \<and> tj \<le> T \<and> T - ti \<le> 10000 \<and> T - tj \<le> 10000 \<longrightarrow>
               \<not> (reports_leader ws i \<and> reports_leader ws j))"
proof -
  from fire_all_invariant [OF assms] obtain kv ws
    where run: "fire_all evs (kv0, ws0) = Inr (kv, ws)"
      and fr: "frame_ok ws0 ws" and ai: "apart_inv evs ws"
    by blast
  have apart: "\<forall>i j ti tj. i \<noteq> j \<and> reports_leader ws i \<and> reports_leader ws j \<and>
               last_fired i evs = Some ti \<and> last_fired j evs = Some tj \<longrightarrow>
               ti + 15000 \<le> tj \<or> tj + 15000 \<le> ti"
    using ai unfolding apart_inv_def by blast
  have "\<forall>i j ti tj T. i \<noteq> j \<and>
               last_fired i evs = Some ti \<and> last_fired j evs = Some tj \<and>
               ti \<le> T \<and> tj \<le> T \<and> T - ti \<le> 10000 \<and> T - tj \<le> 10000 \<longrightarrow>
               \<not> (reports_leader ws i \<and> reports_leader ws j)"
  proof (intro allI impI)
    fix i j ti tj T
    assume h: "i \<noteq> j \<and>
               last_fired i evs = Some ti \<and> last_fired j evs = Some tj \<and>
               ti \<le> T \<and> tj \<le> T \<and> T - ti \<le> 10000 \<and> T - tj \<le> 10000"
    show "\<not> (reports_leader ws i \<and> reports_leader ws j)"
    proof
      assume "reports_leader ws i \<and> reports_leader ws j"
      with apart h have "ti + 15000 \<le> tj \<or> tj + 15000 \<le> ti" by blast
      with h show False by arith
    qed
  qed
  with run fr apart show ?thesis by (simp add: frame_ok_def)
qed



text \<open>
  Claim C1, as the code has it. The lease check of the maintenance tick, for an enabled
  instance: when the store holds no holder, or the instance's own identifier, or no
  ping, or a ping at least 15 seconds old, the tick writes its identifier and the time
  and leaves the instance not locked out; when another identifier is stored with a ping
  less than 15 seconds old, it leaves the instance locked out and the store as it was.
  \<open>checkInstanceLock\<close>, for an instance that is not pro, over its own keys: with no
  holder or a heartbeat more than 10 seconds old it writes its identifier and the time
  and returns true; as the holder it rewrites the heartbeat and returns true; otherwise
  it returns false and writes nothing.
\<close>

theorem lease_check_rules:
  "(isEnabled w \<and> globalContext w = ExtensionContext \<longrightarrow>
      (\<exists>w'. pollTick now w = Inr w' \<and>
         (if truthy_string (ide_lock (globalState w)) \<and>
             ide_lock (globalState w) \<noteq> Some (extension_id w) \<and>
             (case ide_lock_ping (globalState w) of
                None \<Rightarrow> False
              | Some ping \<Rightarrow> ping \<noteq> 0 \<and> now - ping < 15000)
          then isLockedOut w' \<and> globalState w' = globalState w
          else \<not> isLockedOut w' \<and>
               globalState w' = (globalState w)\<lparr>ide_lock := Some (extension_id w),
                                   ide_lock_ping := Some now\<rparr>))) \<and>
   (\<not> isPro w \<and> globalContext w = ExtensionContext \<longrightarrow>
      (let lockId = instance_lock (globalState w);
           lastHeartbeat = (case instance_heartbeat (globalState w) of None \<Rightarrow> 0 | Some h \<Rightarrow> h)
       in (\<not> truthy_string lockId \<or> now - lastHeartbeat > 10000 \<longrightarrow>
             checkInstanceLock now w =
               (w\<lparr>globalState := (globalState w)\<lparr>instance_lock := Some (INSTANCE_ID w),
                                     instance_heartbeat := Some now\<rparr>\<rparr>, True)) \<and>
          (truthy_string lockId \<and> now - lastHeartbeat \<le> 10000 \<and> lockId = Some (INSTANCE_ID w) \<longrightarrow>
             checkInstanceLock now w =
               (w\<lparr>globalState := (globalState w)\<lparr>instance_heartbeat := Some now\<rparr>\<rparr>, True)) \<and>
          (truthy_string lockId \<and> now - lastHeartbeat \<le> 10000 \<and> lockId \<noteq> Some (INSTANCE_ID w) \<longrightarrow>
             checkInstanceLock now w = (w, False))))"
proof (intro conjI impI)
  assume "isEnabled w \<and> globalContext w = ExtensionContext"
  then have e: "isEnabled w" and c: "globalContext w = ExtensionContext" by simp_all
  from pollTick_result [OF e c, of now] show "\<exists>w'. pollTick now w = Inr w' \<and>
         (if truthy_string (ide_lock (globalState w)) \<and>
             ide_lock (globalState w) \<noteq> Some (extension_id w) \<and>
             (case ide_lock_ping (globalState w) of
                None \<Rightarrow> False
              | Some ping \<Rightarrow> ping \<noteq> 0 \<and> now - ping < 15000)
          then isLockedOut w' \<and> globalState w' = globalState w
          else \<not> isLockedOut w' \<and>
               globalState w' = (globalState w)\<lparr>ide_lock := Some (extension_id w),
                                   ide_lock_ping := Some now\<rparr>)"
    unfolding held_by_other_def by blast
next
  assume "\<not> isPro w \<and> globalContext w = ExtensionContext"
  then show "let lockId = instance_lock (globalState w);
           lastHeartbeat = (case instance_heartbeat (globalState w) of None \<Rightarrow> 0 | Some h \<Rightarrow> h)
       in (\<not> truthy_string lockId \<or> now - lastHeartbeat > 10000 \<longrightarrow>
             checkInstanceLock now w =
               (w\<lparr>globalState := (globalState w)\<lparr>instance_lock := Some (INSTANCE_ID w),
                                     instance_heartbeat := Some now\<rparr>\<rparr>, True)) \<and>
          (truthy_string lockId \<and> now - lastHeartbeat \<le> 10000 \<and> lockId = Some (INSTANCE_ID w) \<longrightarrow>
             checkInstanceLock now w =
               (w\<lparr>globalState := (globalState w)\<lparr>instance_heartbeat := Some now\<rparr>\<rparr>, True)) \<and>
          (truthy_string lockId \<and> now - lastHeartbeat \<le> 10000 \<and> lockId \<noteq> Some (INSTANCE_ID w) \<longrightarrow>
             checkInstanceLock now w = (w, False))"
    by (simp add: checkInstanceLock_def Let_def)
qed

theorem lease_check_rules_witness:
  "isEnabled window_behind \<and> globalContext window_behind = ExtensionContext \<and>
   \<not> isPro window_behind \<and>
   (\<exists>w'. pollTick 20000 window_behind = Inr w' \<and> \<not> isLockedOut w' \<and>
      ide_lock (globalState w') = Some ''me'' \<and> ide_lock_ping (globalState w') = Some 20000) \<and>
   (\<exists>w'. pollTick 15999 window_behind = Inr w' \<and> isLockedOut w' \<and>
      globalState w' = globalState window_behind) \<and>
   snd (checkInstanceLock 20000 window_behind)"
proof -
  have e: "isEnabled window_behind \<and> globalContext window_behind = ExtensionContext"
    by (simp add: window_behind_def window_def)
  have p: "\<not> isPro window_behind \<and> globalContext window_behind = ExtensionContext"
    by (simp add: window_behind_def window_def isPro_def module_load_def)
  have st: "ide_lock (globalState window_behind) = Some ''other''"
    "ide_lock_ping (globalState window_behind) = Some 1000"
    "instance_lock (globalState window_behind) = None"
    "extension_id window_behind = ''me''"
    by (simp_all add: window_behind_def window_def module_load_def empty_store_def)
  from lease_check_rules [of window_behind 20000] e st
  have a: "\<exists>w'. pollTick 20000 window_behind = Inr w' \<and> \<not> isLockedOut w' \<and>
      ide_lock (globalState w') = Some ''me'' \<and> ide_lock_ping (globalState w') = Some 20000"
    by (auto simp: truthy_string_def)
  from lease_check_rules [of window_behind 15999] e st
  have b: "\<exists>w'. pollTick 15999 window_behind = Inr w' \<and> isLockedOut w' \<and>
      globalState w' = globalState window_behind"
    by (auto simp: truthy_string_def)
  from lease_check_rules [of window_behind 20000] p st
  have c: "snd (checkInstanceLock 20000 window_behind)"
    by (simp add: truthy_string_def Let_def)
  from e p a b c show ?thesis by blast
qed

text \<open>Twelve seconds after another instance's ping the tick still stands by and writes
  nothing, although more than ten seconds have passed.\<close>

theorem lease_ttl_counterexample:
  "ide_lock (globalState window_behind) = Some ''other'' \<and>
   extension_id window_behind = ''me'' \<and>
   ide_lock_ping (globalState window_behind) = Some 1000 \<and>
   (10000 :: int) < 13000 - 1000 \<and>
   pollTick 13000 window_behind = Inr (updateStatusBar (window_behind\<lparr>isLockedOut := True\<rparr>)) \<and>
   isLockedOut (updateStatusBar (window_behind\<lparr>isLockedOut := True\<rparr>)) \<and>
   globalState (updateStatusBar (window_behind\<lparr>isLockedOut := True\<rparr>)) = globalState window_behind"
proof -
  have e: "isEnabled window_behind" "globalContext window_behind = ExtensionContext"
    "\<not> isLockedOut window_behind"
    by (simp_all add: window_behind_def window_def module_load_def)
  have st: "ide_lock (globalState window_behind) = Some ''other''"
    "ide_lock_ping (globalState window_behind) = Some 1000"
    "extension_id window_behind = ''me''"
    by (simp_all add: window_behind_def window_def module_load_def empty_store_def)
  have h: "held_by_other 13000 (extension_id window_behind) (globalState window_behind)"
    by (simp add: held_by_other_def st truthy_string_def)
  from pollTick_unfold [OF e(1,2), of 13000] h e(3)
  have "pollTick 13000 window_behind = Inr (updateStatusBar (window_behind\<lparr>isLockedOut := True\<rparr>))"
    by simp
  with st show ?thesis by (simp add: updateStatusBar_def emit_def)
qed

section \<open>Cadence changes and the background-mode toggle\<close>

lemma hasProAccess_eq:
  "hasProAccess w now =
     Inr (p_isPro w \<or>
          (p_context w \<noteq> Null \<and>
           (\<exists>t. trial_start (globalState w) = Some t \<and> t \<noteq> 0 \<and> now - t < TRIAL_DURATION_MS)))"
  by (simp add: hasProAccess_def isTrialActive_eq)

lemma paid_window_timers:
  "live_timers paid_window =
     [\<lparr>handle = 0, runs = CommandPoll, interval = 1000\<rparr>,
      \<lparr>handle = 1, runs = MaintenancePoll, interval = 5000\<rparr>]"
  "commandPollTimer paid_window = Some 0" "pollFrequency paid_window = 1000"
  "isEnabled paid_window" "p_isPro paid_window" "p_context paid_window = ExtensionContext"
  "trial_start (globalState paid_window) = None" "\<not> cdpHandler paid_window"
  by (simp_all add: paid_window_def window_def module_load_def startPolling_def clearTimer_def
        syncSessions_def executeAcceptCommandsForIDE_def emit_def setInterval_def Let_def
        empty_store_def)

lemma syncSessions_timers:
  "live_timers (syncSessions now w) = live_timers w \<and>
   next_handle (syncSessions now w) = next_handle w \<and>
   commandPollTimer (syncSessions now w) = commandPollTimer w \<and>
   pollFrequency (syncSessions now w) = pollFrequency w"
  by (simp add: syncSessions_def emit_def split: sum.split)

lemma handleFrequencyUpdate_replaces_timer:
  assumes "hasProAccess w now = Inr True" "isEnabled w"
  shows "\<exists>w'. handleFrequencyUpdate now freq w = Inr w' \<and> pollFrequency w' = freq \<and>
           frequency (globalState w') = Some freq \<and>
           commandPollTimer w' = Some (next_handle w) \<and>
           live_timers w' =
             filter (\<lambda>t. Some (handle t) \<noteq> commandPollTimer w) (live_timers w) @
               [\<lparr>handle = next_handle w, runs = CommandPoll, interval = freq\<rparr>]"
proof (cases "commandPollTimer w")
  case None
  with assms show ?thesis
    by (simp add: handleFrequencyUpdate_def Let_def syncSessions_timers clearTimer_def
          setInterval_def syncSessions_frame)
next
  case (Some h)
  have "(\<lambda>t. handle t \<noteq> h) = (\<lambda>t. Some (handle t) \<noteq> Some h)" by auto
  with Some assms show ?thesis
    by (simp add: handleFrequencyUpdate_def Let_def syncSessions_timers clearTimer_def
          clearInterval_def setInterval_def syncSessions_frame)
qed

lemma licenseVerified_keeps_timers:
  "\<exists>w'. licenseVerified isValid now w = Inr w' \<and> live_timers w' = live_timers w \<and>
        commandPollTimer w' = commandPollTimer w"
  by (cases isValid)
     (simp_all add: licenseVerified_def isTrialActive_eq setProStatus_def setProStatus_falsy_def
        truthy_def updateStatusBar_def emit_def Let_def)

text \<open>
  Claim C4 asks that every change of the cadence while the fast tick runs replaces its
  timer. The set-cadence handler does so. The license check of \<open>activate\<close> does not:
  for a paying user polling once a second whose license is found invalid, with no trial,
  it sets the cadence to 300 and leaves the fast timer running at 1000.
\<close>

theorem license_downgrade_keeps_old_timer:
  "\<not> isl (licenseVerified (Resolved False) 5 paid_window) \<and>
   pollFrequency (projr (licenseVerified (Resolved False) 5 paid_window)) = 300 \<and>
   live_timers (projr (licenseVerified (Resolved False) 5 paid_window)) =
     [\<lparr>handle = 0, runs = CommandPoll, interval = 1000\<rparr>,
      \<lparr>handle = 1, runs = MaintenancePoll, interval = 5000\<rparr>]"
proof -
  have "licenseVerified (Resolved False) 5 paid_window =
          Inr (updateStatusBar ((setProStatus False paid_window)\<lparr>pollFrequency := 300\<rparr>))"
    by (simp add: licenseVerified_def isPro_def paid_window_timers isTrialActive_eq
          setProStatus_def truthy_def Let_def)
  then show ?thesis
    by (simp add: updateStatusBar_def emit_def setProStatus_def Let_def paid_window_timers)
qed

text \<open>The two gates of the background-mode toggle. Without pro access the handler
  shows the denial and changes nothing else: mode, store and timers stay as they were.
  With pro access, background mode off, the browser driver absent or reporting no
  session, and the relauncher loaded, it starts the setup flow and changes nothing else.\<close>

lemma background_toggle_denied:
  assumes "hasProAccess w now = Inr False"
  shows "handleBackgroundToggle now cdpAvail choice w = Inr (emit ProFeatureDenial w)"
    and "effects (emit ProFeatureDenial w) = effects w @ [ProFeatureDenial]"
    and "backgroundModeEnabled (emit ProFeatureDenial w) = backgroundModeEnabled w"
    and "globalState (emit ProFeatureDenial w) = globalState w"
    and "live_timers (emit ProFeatureDenial w) = live_timers w"
  using assms by (simp_all add: handleBackgroundToggle_def emit_def)

lemma background_toggle_deferred:
  assumes "hasProAccess w now = Inr True" "\<not> backgroundModeEnabled w"
    "\<not> (cdpHandler w \<and> cdpAvail)" "relauncher w"
  shows "handleBackgroundToggle now cdpAvail choice w = Inr (emit SetupFlow w)"
    and "effects (emit SetupFlow w) = effects w @ [SetupFlow]"
    and "backgroundModeEnabled (emit SetupFlow w) = backgroundModeEnabled w"
    and "globalState (emit SetupFlow w) = globalState w"
  using assms by (auto simp: handleBackgroundToggle_def emit_def)

text \<open>
  Claim C7 asks that a toggle by an entitled requester, turning background mode on while
  the browser session cannot be reached, is deferred: a setup flow is requested and the
  mode stays as it was. The deferral sits inside the test for the relauncher. In a window
  of a paying user where neither the browser driver nor the relauncher was loaded, no
  session can be reached; the toggle requests no setup flow, switches background mode
  on and stores it.
\<close>

theorem background_toggle_without_relauncher:
  "hasProAccess bare_window 5 = Inr True \<and>
   \<not> backgroundModeEnabled bare_window \<and> \<not> cdpHandler bare_window \<and>
   \<not> isl (handleBackgroundToggle 5 False Enable bare_window) \<and>
   backgroundModeEnabled (projr (handleBackgroundToggle 5 False Enable bare_window)) \<and>
   background_mode (globalState (projr (handleBackgroundToggle 5 False Enable bare_window)))
     = Some True \<and>
   SetupFlow \<notin> set (effects (projr (handleBackgroundToggle 5 False Enable bare_window)))"
proof -
  have f: "p_isPro bare_window" "\<not> backgroundModeEnabled bare_window"
    "\<not> cdpHandler bare_window" "\<not> relauncher bare_window"
    "background_dont_show (globalState bare_window) = Some True"
    "effects bare_window = []"
    by (simp_all add: bare_window_def window_def module_load_def)
  have "handleBackgroundToggle 5 False Enable bare_window =
          Inr (updateStatusBar
                (bare_window\<lparr>backgroundModeEnabled := True,
                   globalState := (globalState bare_window)\<lparr>background_mode := Some True\<rparr>\<rparr>))"
    by (simp add: handleBackgroundToggle_def hasProAccess_eq f Let_def)
  then show ?thesis
    by (simp add: f hasProAccess_eq updateStatusBar_def emit_def)
qed

section \<open>The bounded verification polling\<close>

lemma syncSessions_session:
  "proPollingTimer (syncSessions now w) = proPollingTimer w \<and>
   proPollingAttempts (syncSessions now w) = proPollingAttempts w"
  by (simp add: syncSessions_def emit_def split: sum.split)

lemma startPolling_session:
  "proPollingTimer (startPolling now w) = proPollingTimer w \<and>
   proPollingAttempts (startPolling now w) = proPollingAttempts w"
  by (simp add: startPolling_def Let_def clearTimer_def clearInterval_def setInterval_def
        executeAcceptCommandsForIDE_def emit_def syncSessions_session split: option.split)

lemma handlePaidActivation_session:
  "proPollingTimer (handlePaidActivation now cdpAvail w) = proPollingTimer w \<and>
   proPollingAttempts (handlePaidActivation now cdpAvail w) = proPollingAttempts w"
  by (simp add: handlePaidActivation_def ensureCDPOrPrompt_def Let_def emit_def
        startPolling_session)

lemma onProActivated_session:
  "onProActivated now cdpAvail w = Inr w' \<Longrightarrow>
     proPollingTimer w' = proPollingTimer w \<and> proPollingAttempts w' = proPollingAttempts w"
  by (auto simp: onProActivated_def Let_def handlePaidActivation_session updateStatusBar_def
        emit_def syncSessions_session split: sum.splits)

lemma verifyLicense_cong:
  "p_context w' = p_context w \<Longrightarrow> user_id (globalState w') = user_id (globalState w) \<Longrightarrow>
     snd (verifyLicense resp w') = snd (verifyLicense resp w)"
  by (simp add: verifyLicense_def Let_def split: option.split response.split)

lemma verifyLicense_true_context:
  "snd (verifyLicense resp w) \<Longrightarrow> p_context w = ExtensionContext"
  by (cases "p_context w") (simp_all add: verifyLicense_def)

lemma syncSessions_tally:
  "tally (syncSessions now w) = tally w \<and> p_isPro (syncSessions now w) = p_isPro w"
  by (simp add: syncSessions_def tally_def occurrences_def emit_def split: sum.split)

lemma tally_cong: "effects w' = effects w \<Longrightarrow> tally w' = tally w"
  by (simp add: tally_def occurrences_def)

lemma clearTimer_frame:
  "effects (clearTimer t w) = effects w \<and> p_isPro (clearTimer t w) = p_isPro w \<and>
   pollTimer (clearTimer t w) = pollTimer w \<and>
   commandPollTimer (clearTimer t w) = commandPollTimer w \<and>
   proPollingTimer (clearTimer t w) = proPollingTimer w \<and>
   globalState (clearTimer t w) = globalState w \<and>
   p_context (clearTimer t w) = p_context w \<and>
   globalContext (clearTimer t w) = globalContext w"
  by (simp add: clearTimer_def clearInterval_def split: option.split)

lemma startPolling_effects:
  "effects (startPolling now w) =
     effects (syncSessions now
       (clearTimer (commandPollTimer w) (clearTimer (pollTimer w) w))) @ [ExecuteAcceptCommands]"
  "p_isPro (startPolling now w) = p_isPro w"
  by (simp_all add: startPolling_def Let_def split_def setInterval_def
        executeAcceptCommandsForIDE_def emit_def clearTimer_frame syncSessions_tally)

lemma startPolling_tally:
  "tally (startPolling now w) = tally w \<and> p_isPro (startPolling now w) = p_isPro w"
proof -
  let ?b = "clearTimer (commandPollTimer w) (clearTimer (pollTimer w) w)"
  have "tally ?b = tally w" by (rule tally_cong) (simp add: clearTimer_frame)
  then have "tally (syncSessions now ?b) = tally w" by (simp add: syncSessions_tally)
  then have "tally (startPolling now w) = tally w"
    by (simp add: tally_def occurrences_def startPolling_effects)
  then show ?thesis by (simp add: startPolling_effects)
qed

lemma handlePaidActivation_tally:
  "tally (handlePaidActivation now cdpAvail w) = tally w \<and>
   p_isPro (handlePaidActivation now cdpAvail w) = p_isPro w"
proof -
  have e: "tally (fst (ensureCDPOrPrompt True cdpAvail w)) = tally w"
    "p_isPro (fst (ensureCDPOrPrompt True cdpAvail w)) = p_isPro w"
    by (simp_all add: ensureCDPOrPrompt_def tally_def occurrences_def emit_def)
  then show ?thesis
    by (simp add: handlePaidActivation_def Let_def startPolling_tally)
qed

lemma getPollFrequency_total: "\<exists>f. getPollFrequency w now = Inr f"
  by (cases "p_context w") (simp_all add: getPollFrequency_def hasProAccess_eq)

lemma onProActivated_total:
  "\<exists>w'. onProActivated now cdpAvail w = Inr w' \<and> tally w' = tally w \<and>
     p_isPro w' = p_isPro w \<and> proPollingTimer w' = proPollingTimer w"
proof -
  let ?w1 = "if cdpHandler w then emit (CdpSetProStatus True) w else w"
  from getPollFrequency_total obtain f where f: "getPollFrequency ?w1 now = Inr f" by blast
  let ?w2 = "?w1\<lparr>pollFrequency := f\<rparr>"
  let ?w3 = "if isEnabled ?w2 then syncSessions now ?w2 else ?w2"
  let ?w4 = "updateStatusBar ?w3"
  have r: "onProActivated now cdpAvail w = Inr (handlePaidActivation now cdpAvail ?w4)"
    using f by (simp add: onProActivated_def Let_def)
  have "tally ?w2 = tally w" "p_isPro ?w2 = p_isPro w"
    by (simp_all add: tally_def occurrences_def emit_def)
  then have "tally ?w3 = tally w" "p_isPro ?w3 = p_isPro w"
    by (simp_all add: syncSessions_tally)
  then have "tally ?w4 = tally w" "p_isPro ?w4 = p_isPro w"
    by (simp_all add: updateStatusBar_def tally_def occurrences_def emit_def)
  then have "tally (handlePaidActivation now cdpAvail ?w4) = tally w"
    "p_isPro (handlePaidActivation now cdpAvail ?w4) = p_isPro w"
    by (simp_all add: handlePaidActivation_tally)
  with r onProActivated_session [OF r] show ?thesis by simp
qed

lemma startProPolling_facts:
  "proPollingAttempts (startProPolling w) = 0"
  "proPollingTimer (startProPolling w) = Some (next_handle w)"
  "live_timers (startProPolling w) =
     filter (\<lambda>t. Some (handle t) \<noteq> proPollingTimer w) (live_timers w) @
       [\<lparr>handle = next_handle w, runs = ProPoll, interval = 5000\<rparr>]"
  "tally (startProPolling w) = tally w"
  "p_context (startProPolling w) = p_context w"
  "user_id (globalState (startProPolling w)) = user_id (globalState w)"
proof -
  show "proPollingAttempts (startProPolling w) = 0"
    by (simp add: startProPolling_def Let_def setInterval_def emit_def)
  show "proPollingTimer (startProPolling w) = Some (next_handle w)"
    by (cases "proPollingTimer w")
       (simp_all add: startProPolling_def Let_def setInterval_def emit_def clearTimer_def
          clearInterval_def)
  show "tally (startProPolling w) = tally w"
    by (simp add: startProPolling_def Let_def setInterval_def emit_def clearTimer_frame
          tally_def occurrences_def)
  show "p_context (startProPolling w) = p_context w"
    by (simp add: startProPolling_def Let_def setInterval_def emit_def clearTimer_frame)
  show "user_id (globalState (startProPolling w)) = user_id (globalState w)"
    by (simp add: startProPolling_def Let_def setInterval_def emit_def clearTimer_frame)
  show "live_timers (startProPolling w) =
     filter (\<lambda>t. Some (handle t) \<noteq> proPollingTimer w) (live_timers w) @
       [\<lparr>handle = next_handle w, runs = ProPoll, interval = 5000\<rparr>]"
    by (cases "proPollingTimer w")
       (simp_all add: startProPolling_def Let_def setInterval_def emit_def clearTimer_def
          clearInterval_def)
qed

text \<open>The two halves make up the whole: \<open>verifyLicense\<close> is the sending followed
  by the receiving, the atomic tick is the first part followed by the second, and the
  truth value of what the promise resolves to is what \<open>verifyLicense\<close> returns.\<close>

lemma verifyLicense_split:
  "verifyLicense resp w =
     (case verifyLicense_send w of
        (w1, sent) \<Rightarrow> if sent then verifyLicense_receive resp w1 else (w1, False))"
  by (simp add: verifyLicense_def verifyLicense_send_def verifyLicense_receive_def emit_def
        Let_def split: option.split response.split)

lemma verifyLicense_value_truthy:
  "truthy (verifyLicense_value resp w) = snd (verifyLicense resp w)"
  by (simp add: verifyLicense_value_def verifyLicense_def truthy_def Let_def
        split: option.split response.split)

lemma proPollingTick_split:
  "proPollingTick resp now cdpAvail w =
     (case proPollingTick_begin w of
        (w1, sent) \<Rightarrow> if sent then proPollingTick_resume resp now cdpAvail w1 else Inr w1)"
proof (cases "MAX_PRO_POLLING_ATTEMPTS < Suc (proPollingAttempts w)")
  case True
  then show ?thesis by (simp add: proPollingTick_def proPollingTick_begin_def Let_def)
next
  case False
  let ?w1 = "emit ProbeInvoked (w\<lparr>proPollingAttempts := Suc (proPollingAttempts w)\<rparr>)"
  obtain ws sent where s: "verifyLicense_send ?w1 = (ws, sent)"
    by (cases "verifyLicense_send ?w1")
  from False have b: "proPollingTick_begin w = (ws, sent)"
    by (simp add: proPollingTick_begin_def Let_def s)
  have v: "verifyLicense resp ?w1 = (if sent then verifyLicense_receive resp ws else (ws, False))"
    by (simp add: verifyLicense_split s)
  show ?thesis
  proof (cases sent)
    case True
    with False v show ?thesis
      by (simp add: proPollingTick_def proPollingTick_resume_def Let_def b)
  next
    case no: False
    with False v show ?thesis by (simp add: proPollingTick_def Let_def b)
  qed
qed

lemma receive_frame:
  "proPollingTimer (fst (verifyLicense_receive resp w)) = proPollingTimer w"
  "proPollingAttempts (fst (verifyLicense_receive resp w)) = proPollingAttempts w"
  "live_timers (fst (verifyLicense_receive resp w)) = live_timers w"
  "next_handle (fst (verifyLicense_receive resp w)) = next_handle w"
  "effects (fst (verifyLicense_receive resp w)) = effects w"
  "p_context (fst (verifyLicense_receive resp w)) = p_context w"
  "p_isPro (fst (verifyLicense_receive resp w)) = p_isPro w"
  "user_id (globalState (fst (verifyLicense_receive resp w))) = user_id (globalState w)"
  by (simp_all add: verifyLicense_receive_def Let_def split: option.split response.split)

lemma receive_verdict:
  "snd (verifyLicense_receive resp w') = snd (verifyLicense_receive resp w)"
  by (simp add: verifyLicense_receive_def Let_def split: option.split response.split)

lemma begin_exhausts:
  assumes "MAX_PRO_POLLING_ATTEMPTS \<le> proPollingAttempts w"
  shows "\<not> snd (proPollingTick_begin w)"
    and "proPollingAttempts (fst (proPollingTick_begin w)) = Suc (proPollingAttempts w)"
    and "proPollingTimer (fst (proPollingTick_begin w)) = None"
    and "live_timers (fst (proPollingTick_begin w)) =
           live_timers (clearTimer (proPollingTimer w) w)"
    and "next_handle (fst (proPollingTick_begin w)) = next_handle w"
    and "tally (fst (proPollingTick_begin w)) =
           (fst (tally w), Suc (fst (snd (tally w))), snd (snd (tally w)))"
    and "p_context (fst (proPollingTick_begin w)) = p_context w"
    and "user_id (globalState (fst (proPollingTick_begin w))) = user_id (globalState w)"
    and "p_isPro (fst (proPollingTick_begin w)) = p_isPro w"
  using assms
  by (simp_all add: proPollingTick_begin_def Let_def emit_def tally_def occurrences_def
        clearTimer_def clearInterval_def split: option.split)

lemma begin_probes:
  assumes "proPollingAttempts w < MAX_PRO_POLLING_ATTEMPTS"
  shows "snd (proPollingTick_begin w) \<longleftrightarrow>
           p_context w \<noteq> Null \<and> truthy_string (user_id (globalState w))"
    and "proPollingAttempts (fst (proPollingTick_begin w)) = Suc (proPollingAttempts w)"
    and "proPollingTimer (fst (proPollingTick_begin w)) = proPollingTimer w"
    and "live_timers (fst (proPollingTick_begin w)) = live_timers w"
    and "next_handle (fst (proPollingTick_begin w)) = next_handle w"
    and "tally (fst (proPollingTick_begin w)) = (Suc (fst (tally w)), snd (tally w))"
    and "p_context (fst (proPollingTick_begin w)) = p_context w"
    and "user_id (globalState (fst (proPollingTick_begin w))) = user_id (globalState w)"
    and "p_isPro (fst (proPollingTick_begin w)) = p_isPro w"
  using assms
  by (simp_all add: proPollingTick_begin_def verifyLicense_send_def Let_def emit_def tally_def
        occurrences_def truthy_string_def split: option.split)

lemma resume_denied:
  assumes "\<not> snd (verifyLicense_receive resp w)"
  shows "proPollingTick_resume resp now cdpAvail w = Inr (fst (verifyLicense_receive resp w))"
  using assms by (simp add: proPollingTick_resume_def split_def)


lemma clearTimer_retired: "retired h w \<Longrightarrow> retired h (clearTimer t w)"
  by (cases t) (auto simp: retired_def interval_installed_def clearTimer_def clearInterval_def)

lemma clearTimer_clears: "\<not> interval_installed h (clearTimer (Some h) w)"
  by (auto simp: interval_installed_def clearTimer_def clearInterval_def)

lemma clearTimer_next_handle: "next_handle (clearTimer t w) = next_handle w"
  by (cases t) (simp_all add: clearTimer_def clearInterval_def)

lemma clearTimer_attempts: "proPollingAttempts (clearTimer t w) = proPollingAttempts w"
  by (cases t) (simp_all add: clearTimer_def clearInterval_def)

lemma syncSessions_context: "p_context (syncSessions now w) = p_context w"
  by (simp add: syncSessions_def emit_def split: sum.split)

lemma syncSessions_retired: "retired h (syncSessions now w) = retired h w"
  by (simp add: retired_def interval_installed_def syncSessions_timers)

lemma startPolling_retired:
  "retired h w \<Longrightarrow> retired h (startPolling now w)"
  "next_handle w \<le> next_handle (startPolling now w)"
  "p_context (startPolling now w) = p_context w"
  "globalState (startPolling now w) = globalState w"
proof -
  let ?b = "clearTimer (commandPollTimer w) (clearTimer (pollTimer w) w)"
  let ?c = "syncSessions now ?b"
  have t: "live_timers (startPolling now w) =
             live_timers ?c @ [\<lparr>handle = next_handle ?c, runs = CommandPoll,
                                  interval = pollFrequency ?c\<rparr>,
                               \<lparr>handle = Suc (next_handle ?c), runs = MaintenancePoll,
                                  interval = 5000\<rparr>]"
    "next_handle (startPolling now w) = Suc (Suc (next_handle ?c))"
    by (simp_all add: startPolling_def Let_def split_def setInterval_def
          executeAcceptCommandsForIDE_def emit_def clearTimer_frame)
  have n: "next_handle ?c = next_handle w"
    by (simp add: syncSessions_timers clearTimer_next_handle)
  show "next_handle w \<le> next_handle (startPolling now w)" by (simp add: t n)
  show "p_context (startPolling now w) = p_context w"
    by (simp add: startPolling_def Let_def split_def setInterval_def
          executeAcceptCommandsForIDE_def emit_def clearTimer_frame syncSessions_context)
  show "globalState (startPolling now w) = globalState w"
    by (simp add: startPolling_def Let_def split_def setInterval_def
          executeAcceptCommandsForIDE_def emit_def clearTimer_frame syncSessions_frame)
  assume r: "retired h w"
  then have "retired h ?c" by (simp add: syncSessions_retired clearTimer_retired)
  then show "retired h (startPolling now w)"
    by (simp add: retired_def interval_installed_def t)
qed

lemma handlePaidActivation_retired:
  "retired h w \<Longrightarrow> retired h (handlePaidActivation now cdpAvail w)"
  "next_handle w \<le> next_handle (handlePaidActivation now cdpAvail w)"
  "p_context (handlePaidActivation now cdpAvail w) = p_context w"
  "globalState (handlePaidActivation now cdpAvail w) = globalState w"
proof -
  define e where "e = fst (ensureCDPOrPrompt True cdpAvail w)"
  have e: "live_timers e = live_timers w" "next_handle e = next_handle w"
    "p_context e = p_context w" "globalState e = globalState w"
    by (simp_all add: e_def ensureCDPOrPrompt_def emit_def)
  then have re: "retired h e = retired h w" by (simp add: retired_def interval_installed_def)
  have hp: "handlePaidActivation now cdpAvail w =
              (if \<not> isPro w then w else if isEnabled e then startPolling now e else e)"
    by (simp add: handlePaidActivation_def Let_def e_def)
  from startPolling_retired(2) [of e now]
  show "next_handle w \<le> next_handle (handlePaidActivation now cdpAvail w)"
    by (simp add: hp e)
  show "p_context (handlePaidActivation now cdpAvail w) = p_context w"
    by (simp add: hp e startPolling_retired)
  show "globalState (handlePaidActivation now cdpAvail w) = globalState w"
    by (simp add: hp e startPolling_retired)
  assume "retired h w"
  with re show "retired h (handlePaidActivation now cdpAvail w)"
    by (simp add: hp startPolling_retired)
qed

lemma onProActivated_frame:
  assumes "onProActivated now cdpAvail w = Inr w'"
  shows "retired h w \<Longrightarrow> retired h w'"
    and "next_handle w \<le> next_handle w'"
    and "p_context w' = p_context w"
    and "globalState w' = globalState w"
proof -
  let ?w1 = "if cdpHandler w then emit (CdpSetProStatus True) w else w"
  from getPollFrequency_total obtain f where f: "getPollFrequency ?w1 now = Inr f" by blast
  let ?w2 = "?w1\<lparr>pollFrequency := f\<rparr>"
  define w4 where "w4 = updateStatusBar (if isEnabled ?w2 then syncSessions now ?w2 else ?w2)"
  have "onProActivated now cdpAvail w = Inr (handlePaidActivation now cdpAvail w4)"
    using f by (simp add: onProActivated_def Let_def w4_def)
  with assms have w': "w' = handlePaidActivation now cdpAvail w4" by simp
  have k: "live_timers w4 = live_timers w" "next_handle w4 = next_handle w"
    "p_context w4 = p_context w" "globalState w4 = globalState w"
    by (simp_all add: w4_def updateStatusBar_def emit_def syncSessions_timers
          syncSessions_frame syncSessions_context)
  then have r: "retired h w4 = retired h w" by (simp add: retired_def interval_installed_def)
  from handlePaidActivation_retired(2) [of w4 now cdpAvail]
  show "next_handle w \<le> next_handle w'" by (simp add: w' k)
  show "p_context w' = p_context w" by (simp add: w' handlePaidActivation_retired k)
  show "globalState w' = globalState w" by (simp add: w' handlePaidActivation_retired k)
  assume "retired h w"
  with r show "retired h w'" by (simp add: w' handlePaidActivation_retired)
qed

lemma resume_confirmed:
  assumes s: "snd (verifyLicense_receive resp w)" and c: "p_context w = ExtensionContext"
  shows "\<exists>w'. proPollingTick_resume resp now cdpAvail w = Inr w' \<and>
           proPollingTimer w' = None \<and> proPollingAttempts w' = proPollingAttempts w \<and>
           tally w' = (fst (tally w), fst (snd (tally w)), Suc (snd (snd (tally w)))) \<and>
           p_isPro w' \<and> p_context w' = p_context w \<and>
           user_id (globalState w') = user_id (globalState w) \<and>
           next_handle w \<le> next_handle w' \<and>
           (h < next_handle w \<and> (proPollingTimer w = Some h \<or> \<not> interval_installed h w)
              \<longrightarrow> retired h w')"
proof -
  define w5 where "w5 = (clearTimer (proPollingTimer (fst (verifyLicense_receive resp w)))
                           (fst (verifyLicense_receive resp w)))
                         \<lparr>proPollingTimer := None, p_isPro := True,
                           globalState := (globalState (fst (verifyLicense_receive resp w)))
                                            \<lparr>pro_state := Some True\<rparr>\<rparr>"
  have unf: "proPollingTick_resume resp now cdpAvail w =
               (case (if p_callbacks w5 then onProActivated now cdpAvail w5 else Inr w5) of
                  Inl e \<Rightarrow> Inl e
                | Inr w6 \<Rightarrow> Inr (emit ProActivatedNotice w6))"
    using s c
    by (simp add: proPollingTick_resume_def split_def Let_def context_globalState_def
          clearTimer_frame receive_frame w5_def)
  have f5: "tally w5 = tally w" "p_isPro w5" "proPollingTimer w5 = None"
    "proPollingAttempts w5 = proPollingAttempts w" "p_context w5 = p_context w"
    "user_id (globalState w5) = user_id (globalState w)" "next_handle w5 = next_handle w"
    by (simp_all add: w5_def tally_def occurrences_def clearTimer_frame receive_frame
          clearTimer_next_handle clearTimer_attempts)
  have l5: "live_timers w5 = live_timers (clearTimer (proPollingTimer w) w)"
    by (cases "proPollingTimer w")
       (simp_all add: w5_def clearTimer_def clearInterval_def receive_frame)
  have r5: "h < next_handle w \<and> (proPollingTimer w = Some h \<or> \<not> interval_installed h w)
              \<longrightarrow> retired h w5"
  proof
    assume a: "h < next_handle w \<and> (proPollingTimer w = Some h \<or> \<not> interval_installed h w)"
    from a have "\<not> interval_installed h (clearTimer (proPollingTimer w) w)"
    proof (cases "proPollingTimer w = Some h")
      case True
      then show ?thesis by (simp add: clearTimer_clears)
    next
      case False
      with a have "retired h w" by (simp add: retired_def)
      from clearTimer_retired [OF this] show ?thesis by (simp add: retired_def)
    qed
    with a show "retired h w5"
      by (simp add: retired_def interval_installed_def l5 f5)
  qed
  have "\<exists>w6. (if p_callbacks w5 then onProActivated now cdpAvail w5 else Inr w5) = Inr w6 \<and>
          tally w6 = tally w \<and> p_isPro w6 \<and> proPollingTimer w6 = None \<and>
          proPollingAttempts w6 = proPollingAttempts w \<and> p_context w6 = p_context w \<and>
          user_id (globalState w6) = user_id (globalState w) \<and>
          next_handle w \<le> next_handle w6 \<and>
          (h < next_handle w \<and> (proPollingTimer w = Some h \<or> \<not> interval_installed h w)
              \<longrightarrow> retired h w6)"
  proof (cases "p_callbacks w5")
    case True
    from onProActivated_total [of now cdpAvail w5]
    obtain w6 where o: "onProActivated now cdpAvail w5 = Inr w6" "tally w6 = tally w5"
      "p_isPro w6 = p_isPro w5" "proPollingTimer w6 = proPollingTimer w5" by blast
    from onProActivated_session [OF o(1)] f5
    have at: "proPollingAttempts w6 = proPollingAttempts w" by simp
    from onProActivated_frame(1) [OF o(1), of h] onProActivated_frame(2-4) [OF o(1)] r5 f5
    have fr: "p_context w6 = p_context w" "user_id (globalState w6) = user_id (globalState w)"
      "next_handle w \<le> next_handle w6"
      "h < next_handle w \<and> (proPollingTimer w = Some h \<or> \<not> interval_installed h w)
              \<longrightarrow> retired h w6"
      by auto
    from True o at fr f5 show ?thesis by simp
  next
    case False
    with f5 r5 show ?thesis by simp
  qed
  then obtain w6
    where w6: "(if p_callbacks w5 then onProActivated now cdpAvail w5 else Inr w5) = Inr w6"
      "tally w6 = tally w" "p_isPro w6" "proPollingTimer w6 = None"
      "proPollingAttempts w6 = proPollingAttempts w" "p_context w6 = p_context w"
      "user_id (globalState w6) = user_id (globalState w)" "next_handle w \<le> next_handle w6"
      "h < next_handle w \<and> (proPollingTimer w = Some h \<or> \<not> interval_installed h w)
              \<longrightarrow> retired h w6"
    by blast
  from unf w6(1)
  have r: "proPollingTick_resume resp now cdpAvail w = Inr (emit ProActivatedNotice w6)"
    by simp
  have "tally (emit ProActivatedNotice w6) =
          (fst (tally w6), fst (snd (tally w6)), Suc (snd (snd (tally w6))))"
    by (simp add: tally_def occurrences_def emit_def)
  moreover have "retired h (emit ProActivatedNotice w6) = retired h w6"
    by (simp add: retired_def interval_installed_def emit_def)
  ultimately show ?thesis using w6 r by (simp add: emit_def)
qed

lemma resume_without_context:
  assumes "snd (verifyLicense_receive resp w)" "p_context w = Null"
  shows "proPollingTick_resume resp now cdpAvail w = Inl TypeError"
  using assms
  by (simp add: proPollingTick_resume_def split_def Let_def context_globalState_def
        clearTimer_frame receive_frame)


lemma verifyLicense_verdict:
  "snd (verifyLicense resp w) \<longleftrightarrow>
     p_context w \<noteq> Null \<and> truthy_string (user_id (globalState w)) \<and>
     snd (verifyLicense_receive resp w)"
  by (simp add: verifyLicense_def verifyLicense_receive_def truthy_string_def Let_def
        split: option.split response.split)

lemma fires_idle:
  "\<not> interval_installed h w \<Longrightarrow>
     poll_all h (IntervalFires # evs) (w, n) = poll_all h evs (w, n)"
  by simp

lemma answer_idle:
  "poll_all h (ProbeAnswers resp now cdpAvail # evs) (w, 0) = poll_all h evs (w, 0)"
  by simp

lemma fires_step:
  "interval_installed h w \<Longrightarrow>
     poll_all h (IntervalFires # evs) (w, n) =
       poll_all h evs (fst (proPollingTick_begin w),
                       if snd (proPollingTick_begin w) then Suc n else n)"
  by (simp add: split_def)

lemma answer_step:
  "proPollingTick_resume resp now cdpAvail w = Inr w' \<Longrightarrow>
     poll_all h (ProbeAnswers resp now cdpAvail # evs) (w, Suc n) = poll_all h evs (w', n)"
  by simp

lemma round_denied:
  assumes i: "interval_installed h w"
    and a: "proPollingAttempts w < MAX_PRO_POLLING_ATTEMPTS"
    and f: "\<not> snd (verifyLicense resp w)"
  shows "\<exists>w1. poll_all h (IntervalFires # ProbeAnswers resp now cdpAvail # evs) (w, 0)
                 = poll_all h evs (w1, 0) \<and>
           proPollingAttempts w1 = Suc (proPollingAttempts w) \<and>
           proPollingTimer w1 = proPollingTimer w \<and> live_timers w1 = live_timers w \<and>
           next_handle w1 = next_handle w \<and> p_context w1 = p_context w \<and>
           user_id (globalState w1) = user_id (globalState w) \<and>
           tally w1 = (Suc (fst (tally w)), snd (tally w)) \<and> p_isPro w1 = p_isPro w"
proof -
  define wb where "wb = fst (proPollingTick_begin w)"
  note b = begin_probes [OF a, folded wb_def]
  show ?thesis
  proof (cases "snd (proPollingTick_begin w)")
    case True
    with b(1) f have "\<not> snd (verifyLicense_receive resp w)"
      by (simp add: verifyLicense_verdict)
    then have d: "\<not> snd (verifyLicense_receive resp wb)" by (simp add: receive_verdict [of resp wb w])
    define w1 where "w1 = fst (verifyLicense_receive resp wb)"
    from resume_denied [OF d] have r: "proPollingTick_resume resp now cdpAvail wb = Inr w1"
      by (simp add: w1_def)
    have "poll_all h (IntervalFires # ProbeAnswers resp now cdpAvail # evs) (w, 0)
            = poll_all h (ProbeAnswers resp now cdpAvail # evs) (wb, Suc 0)"
      using True unfolding fires_step [OF i] wb_def by simp
    also have "\<dots> = poll_all h evs (w1, 0)" by (rule answer_step [OF r])
    finally have p: "poll_all h (IntervalFires # ProbeAnswers resp now cdpAvail # evs) (w, 0)
            = poll_all h evs (w1, 0)" .
    have "tally w1 = tally wb" by (rule tally_cong) (simp add: w1_def receive_frame)
    with b have "proPollingAttempts w1 = Suc (proPollingAttempts w)"
      "proPollingTimer w1 = proPollingTimer w" "live_timers w1 = live_timers w"
      "next_handle w1 = next_handle w" "p_context w1 = p_context w"
      "user_id (globalState w1) = user_id (globalState w)"
      "tally w1 = (Suc (fst (tally w)), snd (tally w))" "p_isPro w1 = p_isPro w"
      by (simp_all add: w1_def receive_frame)
    with p show ?thesis by blast
  next
    case False
    then have "poll_all h (IntervalFires # ProbeAnswers resp now cdpAvail # evs) (w, 0)
            = poll_all h (ProbeAnswers resp now cdpAvail # evs) (wb, 0)"
      unfolding fires_step [OF i] wb_def by simp
    also have "\<dots> = poll_all h evs (wb, 0)" by (rule answer_idle)
    finally have "poll_all h (IntervalFires # ProbeAnswers resp now cdpAvail # evs) (w, 0)
            = poll_all h evs (wb, 0)" .
    with b show ?thesis by blast
  qed
qed

lemma round_confirmed:
  assumes i: "interval_installed h w"
    and t: "proPollingTimer w = Some h" and n: "h < next_handle w"
    and a: "proPollingAttempts w < MAX_PRO_POLLING_ATTEMPTS"
    and s: "snd (verifyLicense resp w)"
  shows "\<exists>w1. poll_all h (IntervalFires # ProbeAnswers resp now cdpAvail # evs) (w, 0)
                 = poll_all h evs (w1, 0) \<and>
           retired h w1 \<and> proPollingTimer w1 = None \<and> p_isPro w1 \<and>
           tally w1 = (Suc (fst (tally w)), fst (snd (tally w)), Suc (snd (snd (tally w))))"
proof -
  define wb where "wb = fst (proPollingTick_begin w)"
  note b = begin_probes [OF a, folded wb_def]
  from s have v: "p_context w \<noteq> Null" "truthy_string (user_id (globalState w))"
    "snd (verifyLicense_receive resp w)"
    by (simp_all add: verifyLicense_verdict)
  from v b have sent: "snd (proPollingTick_begin w)" by simp
  from v(3) have d: "snd (verifyLicense_receive resp wb)"
    by (simp add: receive_verdict [of resp wb w])
  from v(1) b have c: "p_context wb = ExtensionContext" by (cases "p_context w") simp_all
  from i b have ib: "proPollingTimer wb = Some h" "h < next_handle wb" using t n by simp_all
  from resume_confirmed [OF d c, of now cdpAvail h] ib
  obtain w1 where r: "proPollingTick_resume resp now cdpAvail wb = Inr w1"
    "proPollingTimer w1 = None" "p_isPro w1" "retired h w1"
    "tally w1 = (fst (tally wb), fst (snd (tally wb)), Suc (snd (snd (tally wb))))"
    by blast
  have "poll_all h (IntervalFires # ProbeAnswers resp now cdpAvail # evs) (w, 0)
          = poll_all h (ProbeAnswers resp now cdpAvail # evs) (wb, Suc 0)"
    using sent unfolding fires_step [OF i] wb_def by simp
  also have "\<dots> = poll_all h evs (w1, 0)" by (rule answer_step [OF r(1)])
  finally have p: "poll_all h (IntervalFires # ProbeAnswers resp now cdpAvail # evs) (w, 0)
          = poll_all h evs (w1, 0)" .
  from r(5) b(6) have "tally w1 =
      (Suc (fst (tally w)), fst (snd (tally w)), Suc (snd (snd (tally w))))" by simp
  with p r show ?thesis by blast
qed

lemma fires_exhausted:
  assumes i: "interval_installed h w" and t: "proPollingTimer w = Some h"
    and a: "MAX_PRO_POLLING_ATTEMPTS \<le> proPollingAttempts w"
  shows "\<exists>w1. poll_all h (IntervalFires # evs) (w, n) = poll_all h evs (w1, n) \<and>
           \<not> interval_installed h w1 \<and> proPollingTimer w1 = None \<and>
           next_handle w1 = next_handle w \<and> p_context w1 = p_context w \<and>
           proPollingAttempts w1 = Suc (proPollingAttempts w) \<and> p_isPro w1 = p_isPro w \<and>
           tally w1 = (fst (tally w), Suc (fst (snd (tally w))), snd (snd (tally w)))"
proof -
  define wb where "wb = fst (proPollingTick_begin w)"
  note b = begin_exhausts [OF a, folded wb_def]
  from b(4) t have "\<not> interval_installed h wb"
    using clearTimer_clears [of h w] by (simp add: interval_installed_def)
  moreover have "poll_all h (IntervalFires # evs) (w, n) = poll_all h evs (wb, n)"
    using b(1) unfolding fires_step [OF i] wb_def by simp
  ultimately show ?thesis using b by blast
qed

lemma in_turn_append: "in_turn (xs @ ys) = in_turn xs @ in_turn ys"
  by (induction xs rule: in_turn.induct) simp_all

lemma in_turn_idle:
  "\<not> interval_installed h w \<Longrightarrow> poll_all h (in_turn rs @ evs) (w, 0) = poll_all h evs (w, 0)"
  by (induction rs rule: in_turn.induct) simp_all

lemma in_turn_denied:
  assumes "interval_installed h w"
    and "proPollingAttempts w + length xs \<le> MAX_PRO_POLLING_ATTEMPTS"
    and "\<forall>x\<in>set xs. \<not> snd (verifyLicense (fst x) w)"
  shows "\<exists>w1. poll_all h (in_turn xs @ evs) (w, 0) = poll_all h evs (w1, 0) \<and>
           proPollingAttempts w1 = proPollingAttempts w + length xs \<and>
           proPollingTimer w1 = proPollingTimer w \<and> live_timers w1 = live_timers w \<and>
           next_handle w1 = next_handle w \<and> p_context w1 = p_context w \<and>
           user_id (globalState w1) = user_id (globalState w) \<and>
           tally w1 = (fst (tally w) + length xs, snd (tally w)) \<and> p_isPro w1 = p_isPro w"
  using assms
proof (induction xs arbitrary: w)
  case Nil
  have "poll_all h (in_turn [] @ evs) (w, 0) = poll_all h evs (w, 0)" by simp
  then show ?case by (intro exI [of _ w]) simp
next
  case (Cons x xs)
  obtain resp now cdpAvail where x: "x = (resp, now, cdpAvail)" by (cases x)
  from Cons.prems have a: "proPollingAttempts w < MAX_PRO_POLLING_ATTEMPTS"
    and f: "\<not> snd (verifyLicense resp w)" by (simp_all add: x)
  from round_denied [OF Cons.prems(1) a f, of now cdpAvail "in_turn xs @ evs"]
  obtain w1 where r: "poll_all h (IntervalFires # ProbeAnswers resp now cdpAvail #
                        in_turn xs @ evs) (w, 0) = poll_all h (in_turn xs @ evs) (w1, 0)"
    "proPollingAttempts w1 = Suc (proPollingAttempts w)"
    "proPollingTimer w1 = proPollingTimer w" "live_timers w1 = live_timers w"
    "next_handle w1 = next_handle w" "p_context w1 = p_context w"
    "user_id (globalState w1) = user_id (globalState w)"
    "tally w1 = (Suc (fst (tally w)), snd (tally w))" "p_isPro w1 = p_isPro w"
    by blast
  from Cons.prems(1) r(4) have i1: "interval_installed h w1"
    by (simp add: interval_installed_def)
  from Cons.prems(2) r(2) have a1: "proPollingAttempts w1 + length xs \<le> MAX_PRO_POLLING_ATTEMPTS"
    by simp
  have "\<forall>x\<in>set xs. \<not> snd (verifyLicense (fst x) w1)"
    using Cons.prems(3) r(6,7) by (simp add: verifyLicense_cong [of w1 w])
  from Cons.IH [OF i1 a1 this]
  obtain w2 where s: "poll_all h (in_turn xs @ evs) (w1, 0) = poll_all h evs (w2, 0)"
    "proPollingAttempts w2 = proPollingAttempts w1 + length xs"
    "proPollingTimer w2 = proPollingTimer w1" "live_timers w2 = live_timers w1"
    "next_handle w2 = next_handle w1" "p_context w2 = p_context w1"
    "user_id (globalState w2) = user_id (globalState w1)"
    "tally w2 = (fst (tally w1) + length xs, snd (tally w1))" "p_isPro w2 = p_isPro w1"
    by blast
  from r s have "poll_all h (in_turn (x # xs) @ evs) (w, 0) = poll_all h evs (w2, 0)"
    by (simp add: x)
  moreover from r s have "proPollingAttempts w2 = proPollingAttempts w + length (x # xs)"
    "proPollingTimer w2 = proPollingTimer w" "live_timers w2 = live_timers w"
    "next_handle w2 = next_handle w" "p_context w2 = p_context w"
    "user_id (globalState w2) = user_id (globalState w)"
    "tally w2 = (fst (tally w) + length (x # xs), snd (tally w))" "p_isPro w2 = p_isPro w"
    by simp_all
  ultimately show ?case by blast
qed


lemma startProPolling_next_handle:
  "next_handle (startProPolling w) = Suc (next_handle w)"
  "interval_installed (next_handle w) (startProPolling w)"
  "p_isPro (startProPolling w) = p_isPro w"
proof -
  show "next_handle (startProPolling w) = Suc (next_handle w)"
    by (simp add: startProPolling_def Let_def setInterval_def emit_def clearTimer_next_handle)
  show "interval_installed (next_handle w) (startProPolling w)"
    by (simp add: interval_installed_def startProPolling_facts)
  show "p_isPro (startProPolling w) = p_isPro w"
    by (simp add: startProPolling_def Let_def setInterval_def emit_def clearTimer_frame)
qed

text \<open>Answered in turn, a session does what is asked of it. When every probe fails, the
  probe is called 24 times, the 25th tick shows the exhaustion warning and clears the
  interval, and nothing follows. When the probe first succeeds at attempt \<open>k\<close>, it was
  called \<open>k\<close> times, the activation notice is shown once and the interval is cleared.\<close>

lemma in_turn_exhausts:
  assumes i: "interval_installed h w" and t: "proPollingTimer w = Some h"
    and a: "proPollingAttempts w \<le> MAX_PRO_POLLING_ATTEMPTS"
    and l: "MAX_PRO_POLLING_ATTEMPTS - proPollingAttempts w < length rs"
    and f: "\<forall>r\<in>set rs. \<not> snd (verifyLicense (fst r) w)"
  shows "\<exists>w'. poll_all h (in_turn rs) (w, 0) = Inr (w', 0) \<and>
           \<not> interval_installed h w' \<and> proPollingTimer w' = None \<and>
           p_isPro w' = p_isPro w \<and>
           tally w' = (fst (tally w) + (MAX_PRO_POLLING_ATTEMPTS - proPollingAttempts w),
                       Suc (fst (snd (tally w))), snd (snd (tally w)))"
proof -
  define k where "k = MAX_PRO_POLLING_ATTEMPTS - proPollingAttempts w"
  define xs where "xs = take k rs"
  from l have "drop k rs \<noteq> []" by (simp add: k_def)
  then obtain r ys where d: "drop k rs = r # ys" by (cases "drop k rs") simp_all
  obtain resp now cdpAvail where r: "r = (resp, now, cdpAvail)" by (cases r)
  have rs: "rs = xs @ r # ys" using append_take_drop_id [of k rs] by (simp add: xs_def d)
  from l have lx: "length xs = k" by (simp add: xs_def k_def)
  have it: "in_turn rs = in_turn xs @ IntervalFires # ProbeAnswers resp now cdpAvail # in_turn ys"
    by (simp add: rs in_turn_append r)
  from a lx have ax: "proPollingAttempts w + length xs \<le> MAX_PRO_POLLING_ATTEMPTS"
    by (simp add: k_def)
  from f have fx: "\<forall>x\<in>set xs. \<not> snd (verifyLicense (fst x) w)" by (simp add: rs)
  from in_turn_denied [OF i ax fx,
      of "IntervalFires # ProbeAnswers resp now cdpAvail # in_turn ys"]
  obtain w1 where p1: "poll_all h (in_turn rs) (w, 0) =
        poll_all h (IntervalFires # ProbeAnswers resp now cdpAvail # in_turn ys) (w1, 0)"
    "proPollingAttempts w1 = proPollingAttempts w + length xs"
    "proPollingTimer w1 = proPollingTimer w" "live_timers w1 = live_timers w"
    "tally w1 = (fst (tally w) + length xs, snd (tally w))" "p_isPro w1 = p_isPro w"
    unfolding it by blast
  from i p1(4) have i1: "interval_installed h w1" by (simp add: interval_installed_def)
  from p1(2) a lx have a1: "MAX_PRO_POLLING_ATTEMPTS \<le> proPollingAttempts w1"
    by (simp add: k_def)
  from fires_exhausted [OF i1 _ a1, of "ProbeAnswers resp now cdpAvail # in_turn ys" 0] t p1(3)
  obtain w2 where p2: "poll_all h (IntervalFires # ProbeAnswers resp now cdpAvail # in_turn ys)
        (w1, 0) = poll_all h (ProbeAnswers resp now cdpAvail # in_turn ys) (w2, 0)"
    "\<not> interval_installed h w2" "proPollingTimer w2 = None" "p_isPro w2 = p_isPro w1"
    "tally w2 = (fst (tally w1), Suc (fst (snd (tally w1))), snd (snd (tally w1)))"
    by auto
  have "poll_all h (in_turn rs) (w, 0) =
          poll_all h (ProbeAnswers resp now cdpAvail # in_turn ys) (w2, 0)"
    by (simp only: p1(1) p2(1))
  also have "\<dots> = poll_all h (in_turn ys @ []) (w2, 0)"
    by (simp only: answer_idle append_Nil2)
  also have "\<dots> = poll_all h [] (w2, 0)" by (rule in_turn_idle [OF p2(2)])
  also have "\<dots> = Inr (w2, 0)" by (simp only: poll_all.simps)
  finally have fin: "poll_all h (in_turn rs) (w, 0) = Inr (w2, 0)" .
  from p2(2-5) p1(5,6) lx have "\<not> interval_installed h w2 \<and> proPollingTimer w2 = None \<and>
           p_isPro w2 = p_isPro w \<and>
           tally w2 = (fst (tally w) + (MAX_PRO_POLLING_ATTEMPTS - proPollingAttempts w),
                       Suc (fst (snd (tally w))), snd (snd (tally w)))"
    by (simp add: k_def)
  with fin show ?thesis by blast
qed

lemma in_turn_succeeds:
  assumes i: "interval_installed h w" and t: "proPollingTimer w = Some h"
    and n: "h < next_handle w"
    and a: "proPollingAttempts w + length xs < MAX_PRO_POLLING_ATTEMPTS"
    and f: "\<forall>x\<in>set xs. \<not> snd (verifyLicense (fst x) w)"
    and s: "snd (verifyLicense resp w)"
  shows "\<exists>w'. poll_all h (in_turn (xs @ (resp, now, cdpAvail) # ys)) (w, 0) = Inr (w', 0) \<and>
           retired h w' \<and> proPollingTimer w' = None \<and> p_isPro w' \<and>
           tally w' = (fst (tally w) + Suc (length xs), fst (snd (tally w)),
                       Suc (snd (snd (tally w))))"
proof -
  have it: "in_turn (xs @ (resp, now, cdpAvail) # ys) =
              in_turn xs @ IntervalFires # ProbeAnswers resp now cdpAvail # in_turn ys"
    by (simp add: in_turn_append)
  from a have ax: "proPollingAttempts w + length xs \<le> MAX_PRO_POLLING_ATTEMPTS" by simp
  from in_turn_denied [OF i ax f,
      of "IntervalFires # ProbeAnswers resp now cdpAvail # in_turn ys"]
  obtain w1 where p1: "poll_all h (in_turn (xs @ (resp, now, cdpAvail) # ys)) (w, 0) =
        poll_all h (IntervalFires # ProbeAnswers resp now cdpAvail # in_turn ys) (w1, 0)"
    "proPollingAttempts w1 = proPollingAttempts w + length xs"
    "proPollingTimer w1 = proPollingTimer w" "live_timers w1 = live_timers w"
    "next_handle w1 = next_handle w" "p_context w1 = p_context w"
    "user_id (globalState w1) = user_id (globalState w)"
    "tally w1 = (fst (tally w) + length xs, snd (tally w))"
    unfolding it by blast
  from i p1(4) have i1: "interval_installed h w1" by (simp add: interval_installed_def)
  from t p1(3) have t1: "proPollingTimer w1 = Some h" by simp
  from n p1(5) have n1: "h < next_handle w1" by simp
  from a p1(2) have a1: "proPollingAttempts w1 < MAX_PRO_POLLING_ATTEMPTS" by simp
  from s p1(6,7) have s1: "snd (verifyLicense resp w1)"
    by (simp add: verifyLicense_cong [of w1 w])
  from round_confirmed [OF i1 t1 n1 a1 s1, of now cdpAvail "in_turn ys"]
  obtain w2 where p2: "poll_all h (IntervalFires # ProbeAnswers resp now cdpAvail # in_turn ys)
        (w1, 0) = poll_all h (in_turn ys) (w2, 0)"
    "retired h w2" "proPollingTimer w2 = None" "p_isPro w2"
    "tally w2 = (Suc (fst (tally w1)), fst (snd (tally w1)), Suc (snd (snd (tally w1))))"
    by blast
  from p2(2) have ni: "\<not> interval_installed h w2" by (simp add: retired_def)
  have "poll_all h (in_turn (xs @ (resp, now, cdpAvail) # ys)) (w, 0) =
          poll_all h (in_turn ys) (w2, 0)"
    by (simp only: p1(1) p2(1))
  also have "\<dots> = poll_all h (in_turn ys @ []) (w2, 0)" by (simp only: append_Nil2)
  also have "\<dots> = poll_all h [] (w2, 0)" by (rule in_turn_idle [OF ni])
  also have "\<dots> = Inr (w2, 0)" by (simp only: poll_all.simps)
  finally have fin: "poll_all h (in_turn (xs @ (resp, now, cdpAvail) # ys)) (w, 0)
                       = Inr (w2, 0)" .
  from p2(2-5) p1(8) have "retired h w2 \<and> proPollingTimer w2 = None \<and> p_isPro w2 \<and>
           tally w2 = (fst (tally w) + Suc (length xs), fst (snd (tally w)),
                       Suc (snd (snd (tally w))))"
    by simp
  with fin show ?thesis by blast
qed

lemma polling_in_turn:
  "proPollingAttempts (startProPolling w) = 0 \<and>
   live_timers (startProPolling w) =
     filter (\<lambda>t. Some (handle t) \<noteq> proPollingTimer w) (live_timers w) @
       [\<lparr>handle = next_handle w, runs = ProPoll, interval = 5000\<rparr>] \<and>
   ((\<forall>r\<in>set rs. \<not> snd (verifyLicense (fst r) w)) \<and> MAX_PRO_POLLING_ATTEMPTS < length rs \<longrightarrow>
      (\<exists>w'. poll_all (next_handle w) (in_turn rs) (startProPolling w, 0) = Inr (w', 0) \<and>
         \<not> interval_installed (next_handle w) w' \<and>
         occurrences ProbeInvoked w' = occurrences ProbeInvoked w + MAX_PRO_POLLING_ATTEMPTS \<and>
         occurrences PollingExhaustedWarning w' = Suc (occurrences PollingExhaustedWarning w) \<and>
         occurrences ProActivatedNotice w' = occurrences ProActivatedNotice w)) \<and>
   ((\<forall>x\<in>set xs. \<not> snd (verifyLicense (fst x) w)) \<and> snd (verifyLicense resp w) \<and>
    length xs < MAX_PRO_POLLING_ATTEMPTS \<longrightarrow>
      (\<exists>w'. poll_all (next_handle w) (in_turn (xs @ (resp, now, cdpAvail) # ys))
               (startProPolling w, 0) = Inr (w', 0) \<and>
         \<not> interval_installed (next_handle w) w' \<and> p_isPro w' \<and>
         occurrences ProbeInvoked w' = occurrences ProbeInvoked w + Suc (length xs) \<and>
         occurrences PollingExhaustedWarning w' = occurrences PollingExhaustedWarning w \<and>
         occurrences ProActivatedNotice w' = Suc (occurrences ProActivatedNotice w)))"
proof (intro conjI impI)
  let ?h = "next_handle w" and ?w0 = "startProPolling w"
  note st = startProPolling_facts [of w] startProPolling_next_handle [of w]
  show "proPollingAttempts ?w0 = 0" by (simp add: st)
  show "live_timers ?w0 =
     filter (\<lambda>t. Some (handle t) \<noteq> proPollingTimer w) (live_timers w) @
       [\<lparr>handle = next_handle w, runs = ProPoll, interval = 5000\<rparr>]" by (simp add: st)
  have cg: "\<And>resp. snd (verifyLicense resp ?w0) = snd (verifyLicense resp w)"
    by (rule verifyLicense_cong) (simp_all add: st)
  from st(4) have oc: "occurrences ProbeInvoked ?w0 = occurrences ProbeInvoked w"
    "occurrences PollingExhaustedWarning ?w0 = occurrences PollingExhaustedWarning w"
    "occurrences ProActivatedNotice ?w0 = occurrences ProActivatedNotice w"
    by (simp_all add: tally_def)
  {
    assume h: "(\<forall>r\<in>set rs. \<not> snd (verifyLicense (fst r) w)) \<and>
               MAX_PRO_POLLING_ATTEMPTS < length rs"
    then have f: "\<forall>r\<in>set rs. \<not> snd (verifyLicense (fst r) ?w0)" by (simp add: cg)
    from h have l: "MAX_PRO_POLLING_ATTEMPTS - proPollingAttempts ?w0 < length rs"
      by (simp add: st)
    from in_turn_exhausts [OF st(8) st(2) _ l f]
    obtain w' where r: "poll_all ?h (in_turn rs) (?w0, 0) = Inr (w', 0)"
      "\<not> interval_installed ?h w'"
      "tally w' = (fst (tally ?w0) + (MAX_PRO_POLLING_ATTEMPTS - proPollingAttempts ?w0),
                       Suc (fst (snd (tally ?w0))), snd (snd (tally ?w0)))"
      by (auto simp: st)
    from r(3) have "occurrences ProbeInvoked w' =
                      occurrences ProbeInvoked w + MAX_PRO_POLLING_ATTEMPTS"
      "occurrences PollingExhaustedWarning w' = Suc (occurrences PollingExhaustedWarning w)"
      "occurrences ProActivatedNotice w' = occurrences ProActivatedNotice w"
      by (simp_all add: st(1) oc tally_def)
    with r(1,2)
    show "\<exists>w'. poll_all ?h (in_turn rs) (?w0, 0) = Inr (w', 0) \<and>
         \<not> interval_installed ?h w' \<and>
         occurrences ProbeInvoked w' = occurrences ProbeInvoked w + MAX_PRO_POLLING_ATTEMPTS \<and>
         occurrences PollingExhaustedWarning w' = Suc (occurrences PollingExhaustedWarning w) \<and>
         occurrences ProActivatedNotice w' = occurrences ProActivatedNotice w"
      by blast
  }
  {
    assume h: "(\<forall>x\<in>set xs. \<not> snd (verifyLicense (fst x) w)) \<and> snd (verifyLicense resp w) \<and>
               length xs < MAX_PRO_POLLING_ATTEMPTS"
    then have f: "\<forall>x\<in>set xs. \<not> snd (verifyLicense (fst x) ?w0)"
      and s: "snd (verifyLicense resp ?w0)" by (simp_all add: cg)
    from h have a: "proPollingAttempts ?w0 + length xs < MAX_PRO_POLLING_ATTEMPTS"
      by (simp add: st)
    have n: "?h < next_handle ?w0" by (simp add: st)
    from in_turn_succeeds [OF st(8) st(2) n a f s, of now cdpAvail ys]
    obtain w' where r: "poll_all ?h (in_turn (xs @ (resp, now, cdpAvail) # ys)) (?w0, 0)
                          = Inr (w', 0)"
      "retired ?h w'" "p_isPro w'"
      "tally w' = (fst (tally ?w0) + Suc (length xs), fst (snd (tally ?w0)),
                       Suc (snd (snd (tally ?w0))))"
      by blast
    from r(4) have "occurrences ProbeInvoked w' = occurrences ProbeInvoked w + Suc (length xs)"
      "occurrences PollingExhaustedWarning w' = occurrences PollingExhaustedWarning w"
      "occurrences ProActivatedNotice w' = Suc (occurrences ProActivatedNotice w)"
      by (simp_all add: st(1) oc tally_def)
    moreover from r(2) have "\<not> interval_installed ?h w'" by (simp add: retired_def)
    ultimately
    show "\<exists>w'. poll_all ?h (in_turn (xs @ (resp, now, cdpAvail) # ys)) (?w0, 0) = Inr (w', 0) \<and>
         \<not> interval_installed ?h w' \<and> p_isPro w' \<and>
         occurrences ProbeInvoked w' = occurrences ProbeInvoked w + Suc (length xs) \<and>
         occurrences PollingExhaustedWarning w' = occurrences PollingExhaustedWarning w \<and>
         occurrences ProActivatedNotice w' = Suc (occurrences ProActivatedNotice w)"
      using r(1,3) by blast
  }
qed


text \<open>In whatever order the interval fires and the answers come, the probe is called at
  most 24 times in a session, the exhaustion warning is shown at most once, and once an
  outcome was reported the interval is cleared.\<close>

lemma poll_step_invariant:
  assumes step: "poll_step h ev (w, n) = Inr (w', n')" and inv: "session_inv h t0 w"
  shows "session_inv h t0 w'"
proof (cases ev)
  case IntervalFires
  show ?thesis
  proof (cases "interval_installed h w")
    case False
    with step IntervalFires have "w' = w" by simp
    with inv show ?thesis by simp
  next
    case True
    with step IntervalFires have w': "w' = fst (proPollingTick_begin w)"
      by (simp add: split_def)
    from inv True have t: "proPollingTimer w = Some h"
      and le: "proPollingAttempts w \<le> MAX_PRO_POLLING_ATTEMPTS"
      and ac: "snd (snd (tally w)) = snd (snd t0)"
      by (auto simp: session_inv_def)
    show ?thesis
    proof (cases "proPollingAttempts w = MAX_PRO_POLLING_ATTEMPTS")
      case mx: True
      then have "MAX_PRO_POLLING_ATTEMPTS \<le> proPollingAttempts w" by simp
      note b = begin_exhausts [OF this, folded w']
      from b(4) t have "\<not> interval_installed h w'"
        using clearTimer_clears [of h w] by (simp add: interval_installed_def)
      with inv b mx show ?thesis by (simp add: session_inv_def)
    next
      case False
      with le have "proPollingAttempts w < MAX_PRO_POLLING_ATTEMPTS" by simp
      note b = begin_probes [OF this, folded w']
      from True b(4) have "interval_installed h w'" by (simp add: interval_installed_def)
      with inv b le False t ac show ?thesis by (simp add: session_inv_def)
    qed
  qed
next
  case (ProbeAnswers resp now cdpAvail)
  show ?thesis
  proof (cases n)
    case 0
    with step ProbeAnswers have "w' = w" by simp
    with inv show ?thesis by simp
  next
    case (Suc m)
    with step ProbeAnswers have r: "proPollingTick_resume resp now cdpAvail w = Inr w'"
      by (simp split: sum.splits)
    show ?thesis
    proof (cases "snd (verifyLicense_receive resp w)")
      case False
      from resume_denied [OF False, of now cdpAvail] r
      have w': "w' = fst (verifyLicense_receive resp w)" by simp
      have "tally w' = tally w" by (rule tally_cong) (simp add: w' receive_frame)
      with inv show ?thesis
        by (simp add: session_inv_def interval_installed_def w' receive_frame)
    next
      case True
      have c: "p_context w = ExtensionContext"
      proof (cases "p_context w")
        case Null
        from resume_without_context [OF True Null, of now cdpAvail] r show ?thesis by simp
      qed simp
      from inv have g: "h < next_handle w \<and>
          (proPollingTimer w = Some h \<or> \<not> interval_installed h w)"
        by (auto simp: session_inv_def)
      from resume_confirmed [OF True c, of now cdpAvail h] r g
      have f: "proPollingAttempts w' = proPollingAttempts w"
        "tally w' = (fst (tally w), fst (snd (tally w)), Suc (snd (snd (tally w))))"
        "retired h w'"
        by auto
      with inv show ?thesis by (simp add: session_inv_def retired_def)
    qed
  qed
qed

lemma poll_all_invariant:
  "poll_all h evs (w, n) = Inr (w', n') \<Longrightarrow> session_inv h t0 w \<Longrightarrow> session_inv h t0 w'"
proof (induction evs arbitrary: w n)
  case Nil
  then show ?case by simp
next
  case (Cons ev evs)
  from Cons.prems(1) obtain w1 n1 where s: "poll_step h ev (w, n) = Inr (w1, n1)"
    and p: "poll_all h evs (w1, n1) = Inr (w', n')"
    by (cases "poll_step h ev (w, n)") auto
  from poll_step_invariant [OF s Cons.prems(2)] have "session_inv h t0 w1" .
  from Cons.IH [OF p this] show ?case .
qed

lemma polling_any_order:
  assumes "poll_all (next_handle w) evs (startProPolling w, 0) = Inr (w', n)"
  shows "occurrences ProbeInvoked w' \<le> occurrences ProbeInvoked w + MAX_PRO_POLLING_ATTEMPTS"
    and "occurrences PollingExhaustedWarning w' \<le> Suc (occurrences PollingExhaustedWarning w)"
    and "occurrences PollingExhaustedWarning w' \<noteq> occurrences PollingExhaustedWarning w \<or>
         occurrences ProActivatedNotice w' \<noteq> occurrences ProActivatedNotice w
           \<Longrightarrow> \<not> interval_installed (next_handle w) w'"
proof -
  note st = startProPolling_facts [of w] startProPolling_next_handle [of w]
  have "session_inv (next_handle w) (tally w) (startProPolling w)"
    by (simp add: session_inv_def st)
  from poll_all_invariant [OF assms this]
  have i: "session_inv (next_handle w) (tally w) w'" .
  then show "occurrences ProbeInvoked w' \<le> occurrences ProbeInvoked w + MAX_PRO_POLLING_ATTEMPTS"
    and "occurrences PollingExhaustedWarning w' \<le> Suc (occurrences PollingExhaustedWarning w)"
    by (simp_all add: session_inv_def tally_def)
  assume "occurrences PollingExhaustedWarning w' \<noteq> occurrences PollingExhaustedWarning w \<or>
         occurrences ProActivatedNotice w' \<noteq> occurrences ProActivatedNotice w"
  with i show "\<not> interval_installed (next_handle w) w'"
    by (auto simp: session_inv_def tally_def split: if_splits)
qed

lemma known_user_window_facts:
  "p_context known_user_window = ExtensionContext"
  "user_id (globalState known_user_window) = Some ''u''"
  "next_handle known_user_window = 0" "tally known_user_window = (0, 0, 0)"
  "proPollingTimer known_user_window = None"
  by (simp_all add: known_user_window_def window_def module_load_def tally_def occurrences_def)

lemma toLowerCase_lifetime: "toLowerCase ''lifetime'' = ''lifetime''"
  by code_simp

lemma lifetime_confirms: "snd (verifyLicense_receive (Json True (Some ''lifetime'')) w)"
  by (simp add: verifyLicense_receive_def Let_def toLowerCase_lifetime)


lemma fires_sends:
  assumes i: "interval_installed h w"
    and a: "proPollingAttempts w < MAX_PRO_POLLING_ATTEMPTS"
    and c: "p_context w = ExtensionContext"
    and u: "truthy_string (user_id (globalState w))"
  shows "\<exists>w1. poll_all h (IntervalFires # evs) (w, n) = poll_all h evs (w1, Suc n) \<and>
           interval_installed h w1 \<and>
           proPollingAttempts w1 = Suc (proPollingAttempts w) \<and>
           proPollingTimer w1 = proPollingTimer w \<and> p_context w1 = ExtensionContext \<and>
           truthy_string (user_id (globalState w1)) \<and>
           tally w1 = (Suc (fst (tally w)), snd (tally w))"
proof -
  define wb where "wb = fst (proPollingTick_begin w)"
  note b = begin_probes [OF a, folded wb_def]
  from b(1) c u have sent: "snd (proPollingTick_begin w)" by simp
  have "poll_all h (IntervalFires # evs) (w, n) = poll_all h evs (wb, Suc n)"
    using sent unfolding fires_step [OF i] wb_def by simp
  moreover from i b(4) have "interval_installed h wb" by (simp add: interval_installed_def)
  ultimately show ?thesis using b c u by auto
qed

lemma answer_confirms:
  assumes s: "snd (verifyLicense_receive resp w)" and c: "p_context w = ExtensionContext"
  shows "\<exists>w1. poll_all h (ProbeAnswers resp now cdpAvail # evs) (w, Suc n)
                 = poll_all h evs (w1, n) \<and>
           p_context w1 = ExtensionContext \<and>
           tally w1 = (fst (tally w), fst (snd (tally w)), Suc (snd (snd (tally w))))"
proof -
  from resume_confirmed [OF s c, of now cdpAvail h]
  obtain w1 where r: "proPollingTick_resume resp now cdpAvail w = Inr w1"
    "tally w1 = (fst (tally w), fst (snd (tally w)), Suc (snd (snd (tally w))))"
    "p_context w1 = p_context w"
    by blast
  from answer_step [OF r(1), of h evs n] r(2,3) c show ?thesis by auto
qed

lemma polling_start_known_user:
  "interval_installed 0 (startProPolling known_user_window)"
  "proPollingAttempts (startProPolling known_user_window) = 0"
  "proPollingTimer (startProPolling known_user_window) = Some 0"
  "p_context (startProPolling known_user_window) = ExtensionContext"
  "truthy_string (user_id (globalState (startProPolling known_user_window)))"
  "tally (startProPolling known_user_window) = (0, 0, 0)"
  using startProPolling_facts [of known_user_window]
    startProPolling_next_handle [of known_user_window]
  by (simp_all add: known_user_window_facts truthy_string_def)

lemma slow_backend_tally:
  "\<exists>w'. slow_backend_session = Inr (w', 0) \<and> tally w' = (2, 0, 2)"
proof -
  let ?ok = "Json True (Some ''lifetime'')"
  note st = polling_start_known_user
  have m: "0 < MAX_PRO_POLLING_ATTEMPTS" "Suc 0 < MAX_PRO_POLLING_ATTEMPTS"
    by (simp_all add: MAX_PRO_POLLING_ATTEMPTS_def)
  from fires_sends [OF st(1) _ st(4,5), of "tl slow_backend" 0] m st
  obtain w1 where s1: "poll_all 0 slow_backend (startProPolling known_user_window, 0)
                         = poll_all 0 (tl slow_backend) (w1, Suc 0)"
    "interval_installed 0 w1" "proPollingAttempts w1 = Suc 0"
    "p_context w1 = ExtensionContext" "truthy_string (user_id (globalState w1))"
    "tally w1 = (Suc 0, 0, 0)"
    by (auto simp: slow_backend_def)
  from fires_sends [OF s1(2) _ s1(4,5), of "tl (tl slow_backend)" "Suc 0"] m s1
  obtain w2 where s2: "poll_all 0 (tl slow_backend) (w1, Suc 0)
                         = poll_all 0 (tl (tl slow_backend)) (w2, Suc (Suc 0))"
    "p_context w2 = ExtensionContext" "tally w2 = (Suc (Suc 0), 0, 0)"
    by (auto simp: slow_backend_def)
  from answer_confirms [OF lifetime_confirms s2(2), of 0 12000 False
      "[ProbeAnswers ?ok 17000 False]" "Suc 0"] s2(3)
  obtain w3 where s3: "poll_all 0 (tl (tl slow_backend)) (w2, Suc (Suc 0))
                         = poll_all 0 [ProbeAnswers ?ok 17000 False] (w3, Suc 0)"
    "p_context w3 = ExtensionContext" "tally w3 = (Suc (Suc 0), 0, Suc 0)"
    by (auto simp: slow_backend_def)
  from answer_confirms [OF lifetime_confirms s3(2), of 0 17000 False "[]" 0] s3(3)
  obtain w4 where s4: "poll_all 0 [ProbeAnswers ?ok 17000 False] (w3, Suc 0)
                         = poll_all 0 [] (w4, 0)"
    "tally w4 = (Suc (Suc 0), 0, Suc (Suc 0))"
    by auto
  have "slow_backend_session = poll_all 0 [] (w4, 0)"
    by (simp only: slow_backend_session_def s1(1) s2(1) s3(1) s4(1))
  then have "slow_backend_session = Inr (w4, 0)" by (simp only: poll_all.simps)
  with s4(2) show ?thesis by (intro exI [of _ w4]) (simp add: numeral_2_eq_2)
qed

lemma late_answer_tally:
  "\<exists>w'. late_answer_session = Inr (w', 0) \<and> tally w' = (24, 1, 1)"
proof -
  let ?ok = "Json True (Some ''lifetime'')"
  let ?xs = "map (\<lambda>n. (Json False None, 5000 * int n + 100, False)) [1..<24]"
  let ?w0 = "startProPolling known_user_window"
  note st = polling_start_known_user
  have l: "length ?xs = 23" by simp
  have a: "proPollingAttempts ?w0 + length ?xs \<le> MAX_PRO_POLLING_ATTEMPTS"
    by (simp add: st MAX_PRO_POLLING_ATTEMPTS_def)
  have f: "\<forall>x\<in>set ?xs. \<not> snd (verifyLicense (fst x) ?w0)"
    by (simp add: verifyLicense_verdict verifyLicense_receive_def)
  from in_turn_denied [OF st(1) a f,
      of "[IntervalFires, IntervalFires, ProbeAnswers ?ok 127000 False]"]
  obtain w1 where s1: "poll_all 0 late_answer (?w0, 0) =
        poll_all 0 [IntervalFires, IntervalFires, ProbeAnswers ?ok 127000 False] (w1, 0)"
    "proPollingAttempts w1 = proPollingAttempts ?w0 + length ?xs"
    "proPollingTimer w1 = proPollingTimer ?w0" "live_timers w1 = live_timers ?w0"
    "p_context w1 = p_context ?w0"
    "user_id (globalState w1) = user_id (globalState ?w0)"
    "tally w1 = (fst (tally ?w0) + length ?xs, snd (tally ?w0))"
    unfolding late_answer_def by blast
  from s1(4) st(1) have i1: "interval_installed 0 w1" by (simp add: interval_installed_def)
  from s1(2) st(2) l have a1: "proPollingAttempts w1 = 23" by simp
  then have a1': "proPollingAttempts w1 < MAX_PRO_POLLING_ATTEMPTS"
    by (simp add: MAX_PRO_POLLING_ATTEMPTS_def)
  from s1(5,6) st have c1: "p_context w1 = ExtensionContext"
    "truthy_string (user_id (globalState w1))" by simp_all
  from s1(7) st(6) l have t1: "tally w1 = (23, 0, 0)" by simp
  from fires_sends [OF i1 a1' c1, of "[IntervalFires, ProbeAnswers ?ok 127000 False]" 0]
  obtain w2 where s2:
    "poll_all 0 [IntervalFires, IntervalFires, ProbeAnswers ?ok 127000 False] (w1, 0)
       = poll_all 0 [IntervalFires, ProbeAnswers ?ok 127000 False] (w2, Suc 0)"
    "interval_installed 0 w2" "proPollingAttempts w2 = Suc (proPollingAttempts w1)"
    "proPollingTimer w2 = proPollingTimer w1" "p_context w2 = ExtensionContext"
    "tally w2 = (Suc (fst (tally w1)), snd (tally w1))"
    by blast
  from s2(3) a1 have a2: "MAX_PRO_POLLING_ATTEMPTS \<le> proPollingAttempts w2"
    by (simp add: MAX_PRO_POLLING_ATTEMPTS_def)
  from s2(4) s1(3) st(3) have t2: "proPollingTimer w2 = Some 0" by simp
  from fires_exhausted [OF s2(2) t2 a2, of "[ProbeAnswers ?ok 127000 False]" "Suc 0"]
  obtain w3 where s3:
    "poll_all 0 [IntervalFires, ProbeAnswers ?ok 127000 False] (w2, Suc 0)
       = poll_all 0 [ProbeAnswers ?ok 127000 False] (w3, Suc 0)"
    "\<not> interval_installed 0 w3" "p_context w3 = p_context w2"
    "tally w3 = (fst (tally w2), Suc (fst (snd (tally w2))), snd (snd (tally w2)))"
    by blast
  from s3(3) s2(5) have c3: "p_context w3 = ExtensionContext" by simp
  from answer_confirms [OF lifetime_confirms c3, of 0 127000 False "[]" 0]
  obtain w4 where s4: "poll_all 0 [ProbeAnswers ?ok 127000 False] (w3, Suc 0)
                         = poll_all 0 [] (w4, 0)"
    "tally w4 = (fst (tally w3), fst (snd (tally w3)), Suc (snd (snd (tally w3))))"
    by blast
  have "late_answer_session = poll_all 0 [] (w4, 0)"
    by (simp only: late_answer_session_def s1(1) s2(1) s3(1) s4(1))
  then have "late_answer_session = Inr (w4, 0)" by (simp only: poll_all.simps)
  moreover from s4(2) s3(4) s2(6) t1 have "tally w4 = (24, 1, 1)" by simp
  ultimately show ?thesis by blast
qed

text \<open>
  Claim C3 asks that a polling session reports exactly one outcome, and that it stops
  after exactly \<open>k\<close> calls of the probe when the probe first succeeds at attempt \<open>k\<close>.
  The callback of the interval does not look whether an earlier tick is still waiting
  for its answer, and after the answer it does not look whether the session has ended.
  With a backend that takes 7 s for an answer, the probe that succeeds at the first
  attempt is called twice and the activation is reported twice. With the answer to the
  24th request coming after the 25th tick, the session reports first that it is
  exhausted and then that it succeeded.
\<close>

theorem verification_polling_overlap:
  "proPollingTimer (startProPolling known_user_window) = Some 0 \<and>
   \<not> isl slow_backend_session \<and>
   occurrences ProbeInvoked (fst (projr slow_backend_session)) = 2 \<and>
   occurrences PollingExhaustedWarning (fst (projr slow_backend_session)) = 0 \<and>
   occurrences ProActivatedNotice (fst (projr slow_backend_session)) = 2 \<and>
   \<not> isl late_answer_session \<and>
   occurrences ProbeInvoked (fst (projr late_answer_session)) = 24 \<and>
   occurrences PollingExhaustedWarning (fst (projr late_answer_session)) = 1 \<and>
   occurrences ProActivatedNotice (fst (projr late_answer_session)) = 1"
proof -
  from slow_backend_tally obtain w1
    where a: "slow_backend_session = Inr (w1, 0)" "tally w1 = (2, 0, 2)" by blast
  from late_answer_tally obtain w2
    where b: "late_answer_session = Inr (w2, 0)" "tally w2 = (24, 1, 1)" by blast
  from a(2) b(2) show ?thesis
    by (simp add: a(1) b(1) tally_def polling_start_known_user)
qed

section \<open>The trial start is written once\<close>

lemma untouched_refl [simp]: "untouched w w"
  by (simp add: untouched_def)

lemma untouched_trans: "untouched a b \<Longrightarrow> untouched b c \<Longrightarrow> untouched a c"
  by (simp add: untouched_def)

lemma untouched_emit [simp]: "untouched w (emit e w)"
  by (simp add: untouched_def emit_def)

lemma untouched_emit': "untouched w w' \<Longrightarrow> untouched w (emit e w')"
  by (simp add: untouched_def emit_def)

lemma untouched_syncSessions [simp]: "untouched w (syncSessions now w)"
  by (simp add: untouched_def syncSessions_def emit_def split: sum.split)

lemma untouched_clearTimer [simp]: "untouched w (clearTimer t w)"
  by (simp add: untouched_def clearTimer_frame)

lemma untouched_startPolling [simp]: "untouched w (startPolling now w)"
proof -
  let ?b = "clearTimer (commandPollTimer w) (clearTimer (pollTimer w) w)"
  have "untouched w ?b" by (simp add: untouched_def clearTimer_frame)
  moreover have "untouched ?b (syncSessions now ?b)" by simp
  moreover have "untouched (syncSessions now ?b) (startPolling now w)"
    by (simp add: untouched_def startPolling_def Let_def split_def setInterval_def
          executeAcceptCommandsForIDE_def emit_def clearTimer_frame)
  ultimately show ?thesis by (blast intro: untouched_trans)
qed

lemma untouched_stopPolling [simp]: "untouched w (stopPolling w)"
  by (simp add: untouched_def stopPolling_def Let_def clearInterval_def emit_def
        split: option.split)

lemma untouched_ensureCDPOrPrompt [simp]: "untouched w (fst (ensureCDPOrPrompt p a w))"
  by (simp add: ensureCDPOrPrompt_def)

lemma untouched_handlePaidActivation [simp]: "untouched w (handlePaidActivation now a w)"
proof -
  let ?e = "fst (ensureCDPOrPrompt True a w)"
  have a: "untouched w ?e" by simp
  have b: "untouched ?e (startPolling now ?e)" by simp
  from untouched_trans [OF a b] a show ?thesis
    by (simp add: handlePaidActivation_def Let_def)
qed

lemma untouched_verifyLicense [simp]: "untouched w (fst (verifyLicense resp w))"
  by (simp add: untouched_def verifyLicense_def emit_def Let_def
        split: option.split response.split)

lemma untouched_setProStatus [simp]: "untouched w (setProStatus val w)"
  by (simp add: untouched_def setProStatus_def Let_def)

lemma untouched_startProPolling [simp]: "untouched w (startProPolling w)"
  by (simp add: untouched_def startProPolling_def Let_def setInterval_def emit_def
        clearTimer_frame)

lemma untouched_commandTick [simp]: "untouched w (commandTick w)"
  by (simp add: commandTick_def executeAcceptCommandsForIDE_def)

lemma untouched_onProActivated:
  "\<exists>w'. onProActivated now a w = Inr w' \<and> untouched w w'"
proof -
  let ?w1 = "if cdpHandler w then emit (CdpSetProStatus True) w else w"
  from getPollFrequency_total obtain f where f: "getPollFrequency ?w1 now = Inr f" by blast
  let ?w2 = "?w1\<lparr>pollFrequency := f\<rparr>"
  let ?w3 = "if isEnabled ?w2 then syncSessions now ?w2 else ?w2"
  let ?w4 = "updateStatusBar ?w3"
  have r: "onProActivated now a w = Inr (handlePaidActivation now a ?w4)"
    using f by (simp add: onProActivated_def Let_def)
  have "untouched w ?w2" by (simp add: untouched_def emit_def)
  moreover have "untouched ?w2 ?w3" by simp
  moreover have "untouched ?w3 ?w4" by (simp add: updateStatusBar_def)
  moreover have "untouched ?w4 (handlePaidActivation now a ?w4)" by simp
  ultimately have "untouched w (handlePaidActivation now a ?w4)"
    by (blast intro: untouched_trans)
  with r show ?thesis by simp
qed

lemma untouched_callback:
  "\<exists>w'. (if p_callbacks w then onProActivated now a w else Inr w) = Inr w' \<and> untouched w w'"
  using untouched_onProActivated [of now a w] by simp

lemma untouched_checkTrialExpiration:
  "\<exists>w'. checkTrialExpiration now w = Inr w' \<and> untouched w w'"
proof -
  let ?w' = "emit TrialExpiredNotice (w\<lparr>globalState := (globalState w)\<lparr>trial_notified := Some True\<rparr>\<rparr>)"
  have "untouched w ?w'" by (simp add: untouched_def emit_def)
  with checkTrialExpiration_cases [of now w] show ?thesis by auto
qed

lemma untouched_pollTick:
  "globalContext w = ExtensionContext \<Longrightarrow> \<exists>w'. pollTick now w = Inr w' \<and> untouched w w'"
  "pollTick now w = Inr w' \<Longrightarrow> untouched w w'"
proof -
  have u: "\<And>w :: world. isEnabled w \<Longrightarrow> globalContext w = ExtensionContext \<Longrightarrow>
             \<exists>w'. pollTick now w = Inr w' \<and> untouched w w'"
  proof -
    fix w :: world assume e: "isEnabled w" and c: "globalContext w = ExtensionContext"
    let ?a = "if \<not> isLockedOut w then updateStatusBar (w\<lparr>isLockedOut := True\<rparr>) else w"
    let ?w1 = "w\<lparr>globalState := (globalState w)\<lparr>ide_lock := Some (extension_id w),
                                  ide_lock_ping := Some now\<rparr>\<rparr>"
    let ?b = "if isLockedOut ?w1 then updateStatusBar (?w1\<lparr>isLockedOut := False\<rparr>) else ?w1"
    have "untouched w ?a" by (simp add: untouched_def updateStatusBar_def emit_def)
    moreover have "untouched w ?b" by (simp add: untouched_def updateStatusBar_def emit_def)
    then have "untouched w (syncSessions now ?b)"
      using untouched_syncSessions [of ?b now] by (blast intro: untouched_trans)
    ultimately show "\<exists>w'. pollTick now w = Inr w' \<and> untouched w w'"
      using pollTick_unfold [OF e c, of now] by (simp add: Let_def)
  qed
  show "globalContext w = ExtensionContext \<Longrightarrow> \<exists>w'. pollTick now w = Inr w' \<and> untouched w w'"
    using u [of w] by (cases "isEnabled w") (simp_all add: pollTick_def)
  show "pollTick now w = Inr w' \<Longrightarrow> untouched w w'"
  proof (cases "isEnabled w")
    case False
    assume "pollTick now w = Inr w'"
    with False show ?thesis by (simp add: pollTick_def)
  next
    case True
    assume p: "pollTick now w = Inr w'"
    with True have "globalContext w = ExtensionContext"
      by (cases "globalContext w") (simp_all add: pollTick_def globalContext_globalState_def)
    from u [OF True this] p show ?thesis by simp
  qed
qed

lemma untouched_handleFrequencyUpdate:
  "\<exists>w'. handleFrequencyUpdate now freq w = Inr w' \<and> untouched w w'"
proof -
  let ?w2 = "w\<lparr>pollFrequency := freq,
               globalState := (globalState w)\<lparr>frequency := Some freq\<rparr>\<rparr>"
  let ?w4 = "clearTimer (commandPollTimer (syncSessions now ?w2)) (syncSessions now ?w2)"
  have a: "untouched w ?w2" by (simp add: untouched_def)
  have "untouched ?w2 (syncSessions now ?w2)" by simp
  moreover have "untouched (syncSessions now ?w2) ?w4" by simp
  ultimately have "untouched w ?w4" using a by (blast intro: untouched_trans)
  then have "untouched w ((fst (setInterval CommandPoll (pollFrequency ?w4) ?w4))
                 \<lparr>commandPollTimer := Some (snd (setInterval CommandPoll (pollFrequency ?w4) ?w4))\<rparr>)"
    by (simp add: untouched_def setInterval_def)
  with a show ?thesis
    by (simp add: handleFrequencyUpdate_def hasProAccess_eq Let_def split_def)
qed

lemma untouched_licenseVerified:
  "\<exists>w'. licenseVerified isValid now w = Inr w' \<and> untouched w w'"
  by (cases isValid)
     (simp_all add: licenseVerified_def isTrialActive_eq Let_def untouched_def setProStatus_def
        setProStatus_falsy_def truthy_def updateStatusBar_def emit_def)

lemma untouched_handleRelaunch:
  "\<exists>w'. handleRelaunch now w = Inr w' \<and> untouched w w'"
  by (simp add: handleRelaunch_def hasProAccess_eq)

lemma untouched_handleBannedCommandsUpdate:
  "\<exists>w'. handleBannedCommandsUpdate now commands w = Inr w' \<and> untouched w w'"
proof -
  let ?w2 = "w\<lparr>bannedCommands := commands,
               globalState := (globalState w)\<lparr>banned_commands := Some commands\<rparr>\<rparr>"
  have a: "untouched w ?w2" by (simp add: untouched_def)
  with untouched_syncSessions [of ?w2 now] have "untouched w (syncSessions now ?w2)"
    by (blast intro: untouched_trans)
  with a show ?thesis
    by (simp add: handleBannedCommandsUpdate_def hasProAccess_eq Let_def)
qed

lemma syncSessions_fields:
  "trial_start (globalState (syncSessions now v)) = trial_start (globalState v)"
  "globalContext (syncSessions now v) = globalContext v"
  "p_context (syncSessions now v) = p_context v"
  "backgroundModeEnabled (syncSessions now v) = backgroundModeEnabled v"
  "cdpHandler (syncSessions now v) = cdpHandler v"
  by (simp_all add: syncSessions_def emit_def split: sum.split)

lemma untouched_handleBackgroundToggle:
  "\<exists>w'. handleBackgroundToggle now a c w = Inr w' \<and> untouched w w'"
  by (simp add: handleBackgroundToggle_def hasProAccess_eq Let_def untouched_def
        updateStatusBar_def emit_def syncSessions_fields)

lemma untouched_proPollingTick:
  "\<exists>w'. proPollingTick resp now a w = Inr w' \<and> untouched w w'"
proof (cases "Suc (proPollingAttempts w) > MAX_PRO_POLLING_ATTEMPTS")
  case True
  then show ?thesis
    by (simp add: proPollingTick_def Let_def untouched_def emit_def clearTimer_frame)
next
  case False
  let ?w1 = "emit ProbeInvoked (w\<lparr>proPollingAttempts := Suc (proPollingAttempts w)\<rparr>)"
  obtain w2 ok where v: "verifyLicense resp ?w1 = (w2, ok)" by (cases "verifyLicense resp ?w1")
  have "untouched w ?w1" by (simp add: untouched_def emit_def)
  with untouched_verifyLicense [of ?w1 resp] v have u2: "untouched w w2"
    by (auto intro: untouched_trans)
  show ?thesis
  proof (cases ok)
    case False
    with \<open>\<not> MAX_PRO_POLLING_ATTEMPTS < Suc (proPollingAttempts w)\<close> v u2 show ?thesis
      by (simp add: proPollingTick_def Let_def)
  next
    case True
    with v have "snd (verifyLicense resp ?w1)" by simp
    from verifyLicense_true_context [OF this] have "p_context w = ExtensionContext"
      by (simp add: emit_def)
    with u2 have c2: "p_context w2 = ExtensionContext" by (simp add: untouched_def)
    let ?w5 = "(clearTimer (proPollingTimer w2) w2)\<lparr>proPollingTimer := None, p_isPro := True,
               globalState := (globalState w2)\<lparr>pro_state := Some True\<rparr>\<rparr>"
    have "untouched w2 ?w5" by (simp add: untouched_def clearTimer_frame)
    with u2 have u5: "untouched w ?w5" by (rule untouched_trans)
    from untouched_callback [of ?w5 now a] obtain w6
      where w6: "(if p_callbacks ?w5 then onProActivated now a ?w5 else Inr ?w5) = Inr w6"
        "untouched ?w5 w6"
      by blast
    from untouched_trans [OF u5 w6(2)] have "untouched w (emit ProActivatedNotice w6)"
      by (rule untouched_emit')
    moreover from False v True c2 w6(1)
    have "proPollingTick resp now a w = Inr (emit ProActivatedNotice w6)"
      by (cases "p_callbacks w2") (simp_all add: proPollingTick_def Let_def clearTimer_frame)
    ultimately show ?thesis by simp
  qed
qed

lemma untouched_activatePro:
  "\<exists>w'. activatePro resp now a w = Inr w' \<and> untouched w w'"
proof -
  obtain w1 ok where v: "verifyLicense resp w = (w1, ok)" by (cases "verifyLicense resp w")
  with untouched_verifyLicense [of w resp] have u1: "untouched w w1" by simp
  show ?thesis
  proof (cases ok)
    case False
    from untouched_trans [OF u1 untouched_startProPolling [of w1]] False v show ?thesis
      by (simp add: activatePro_def)
  next
    case True
    with v have "snd (verifyLicense resp w)" by simp
    from verifyLicense_true_context [OF this] u1 have c1: "p_context w1 = ExtensionContext"
      by (simp add: untouched_def)
    let ?w4 = "w1\<lparr>p_isPro := True,
                 globalState := (globalState w1)\<lparr>pro_state := Some True,
                    frequency := Some (case frequency (globalState w1) of
                                         None \<Rightarrow> 1000 | Some f \<Rightarrow> f)\<rparr>\<rparr>"
    have "untouched w1 ?w4" by (simp add: untouched_def)
    with u1 have u4: "untouched w ?w4" by (rule untouched_trans)
    from untouched_callback [of ?w4 now a] obtain w5
      where w5: "(if p_callbacks ?w4 then onProActivated now a ?w4 else Inr ?w4) = Inr w5"
        "untouched ?w4 w5"
      by blast
    from untouched_trans [OF u4 w5(2)] have "untouched w (emit ProActivatedNotice w5)"
      by (rule untouched_emit')
    moreover from v True c1 w5(1)
    have "activatePro resp now a w = Inr (emit ProActivatedNotice w5)"
      by (cases "p_callbacks w1") (simp_all add: activatePro_def Let_def)
    ultimately show ?thesis by simp
  qed
qed

lemma untouched_kept: "untouched w w' \<Longrightarrow> trial_kept w w'"
  by (simp add: untouched_def trial_kept_def)

lemma trial_kept_trans: "trial_kept a b \<Longrightarrow> trial_kept b c \<Longrightarrow> trial_kept a c"
  by (auto simp: trial_kept_def)

lemma hasTrialStarted_eq:
  "hasTrialStarted w = Inr (p_context w \<noteq> Null \<and> trial_start (globalState w) \<noteq> None)"
  by (cases "p_context w") (simp_all add: hasTrialStarted_def context_globalState_def)

lemma trial_kept_handleToggle: "trial_kept w (handleToggle now a w)"
proof -
  let ?started = "\<not> isEnabled w \<and> \<not> isPro w \<longrightarrow>
                    p_context w \<noteq> Null \<and> trial_start (globalState w) \<noteq> None"
  let ?w1 = "if \<not> ?started then emit TrialActivatedNotice (startTrial now w) else w"
  let ?w4 = "updateStatusBar (?w1\<lparr>isEnabled := \<not> isEnabled ?w1,
               globalState := (globalState ?w1)\<lparr>enabled_global := Some (\<not> isEnabled ?w1)\<rparr>\<rparr>)"
  let ?w5 = "if isEnabled ?w4 then fst (ensureCDPOrPrompt False a (startPolling now ?w4))
             else stopPolling ?w4"
  have r: "handleToggle now a w = ?w5"
    by (simp add: handleToggle_def hasTrialStarted_eq Let_def)
  have k1: "trial_kept w ?w1"
    by (auto simp: trial_kept_def startTrial_def emit_def)
  have "untouched ?w1 ?w4" by (simp add: untouched_def updateStatusBar_def emit_def)
  moreover have "untouched ?w4 ?w5"
  proof (cases "isEnabled ?w4")
    case True
    from untouched_trans [OF untouched_startPolling [of ?w4 now]
        untouched_ensureCDPOrPrompt [of "startPolling now ?w4" False a]] True
    show ?thesis by simp
  next
    case False
    with untouched_stopPolling [of ?w4] show ?thesis by simp
  qed
  ultimately have "untouched ?w1 ?w5" by (rule untouched_trans)
  from trial_kept_trans [OF k1 untouched_kept [OF this]] r show ?thesis by simp
qed

lemma run_command_kept:
  "run_command out c w = Inr w' \<Longrightarrow> trial_kept w w'"
  "\<exists>w'. run_command out c w = Inr w'"
proof -
  have "\<exists>w'. run_command out c w = Inr w' \<and> trial_kept w w'"
  proof (cases c)
    case Toggle
    then show ?thesis using trial_kept_handleToggle by simp
  next
    case Relaunch
    then show ?thesis using untouched_handleRelaunch [of "clock out" w]
      by (auto intro: untouched_kept)
  next
    case (UpdateFrequency freq)
    then show ?thesis using untouched_handleFrequencyUpdate [of "clock out" freq w]
      by (auto intro: untouched_kept)
  next
    case ToggleBackground
    then show ?thesis
      using untouched_handleBackgroundToggle
        [of "clock out" "cdp_reachable out" "dialog_choice out" w]
      by (auto intro: untouched_kept)
  next
    case (UpdateBannedCommands commands)
    then show ?thesis using untouched_handleBannedCommandsUpdate [of "clock out" commands w]
      by (auto intro: untouched_kept)
  next
    case GetBannedCommands
    then show ?thesis by (simp add: untouched_kept)
  next
    case OpenSettings
    then show ?thesis by (simp add: untouched_kept)
  next
    case ActivatePro
    then show ?thesis
      using untouched_activatePro [of "backend out" "clock out" "cdp_reachable out" w]
      by (auto intro: untouched_kept)
  next
    case OnPaid
    then show ?thesis by (simp add: untouched_kept)
  qed
  then show "run_command out c w = Inr w' \<Longrightarrow> trial_kept w w'"
    and "\<exists>w'. run_command out c w = Inr w'" by auto
qed

lemma happen_kept: "happen out h w = Inr w' \<Longrightarrow> trial_kept w w'"
proof (cases h)
  case (Command c)
  assume "happen out h w = Inr w'"
  with Command show ?thesis using run_command_kept(1) by simp
next
  case ActivationLink
  assume "happen out h w = Inr w'"
  with ActivationLink show ?thesis
    using untouched_activatePro [of "backend out" "clock out" "cdp_reachable out" w]
    by (auto intro: untouched_kept)
next
  case CommandPollFires
  assume "happen out h w = Inr w'"
  with CommandPollFires show ?thesis by (auto intro: untouched_kept)
next
  case MaintenancePollFires
  assume "happen out h w = Inr w'"
  with MaintenancePollFires show ?thesis
    using untouched_pollTick(2) by (auto intro: untouched_kept)
next
  case ProPollFires
  assume "happen out h w = Inr w'"
  with ProPollFires show ?thesis
    using untouched_proPollingTick [of "backend out" "clock out" "cdp_reachable out" w]
    by (auto intro: untouched_kept)
next
  case TrialCheckFires
  assume "happen out h w = Inr w'"
  with TrialCheckFires show ?thesis
    using untouched_checkTrialExpiration [of "clock out" w] by (auto intro: untouched_kept)
next
  case (LicenseCheckResolves isValid)
  assume "happen out h w = Inr w'"
  with LicenseCheckResolves show ?thesis
    using untouched_licenseVerified [of isValid "clock out" w] by (auto intro: untouched_kept)
qed

lemma happen_total:
  assumes "globalContext w = ExtensionContext"
  shows "\<exists>w'. happen out h w = Inr w'"
proof (cases h)
  case (Command c)
  then show ?thesis using run_command_kept(2) by simp
next
  case ActivationLink
  then show ?thesis
    using untouched_activatePro [of "backend out" "clock out" "cdp_reachable out" w] by auto
next
  case CommandPollFires
  then show ?thesis by simp
next
  case MaintenancePollFires
  then show ?thesis using untouched_pollTick(1) [OF assms, of "clock out"] by auto
next
  case ProPollFires
  then show ?thesis
    using untouched_proPollingTick [of "backend out" "clock out" "cdp_reachable out" w] by auto
next
  case TrialCheckFires
  then show ?thesis using untouched_checkTrialExpiration [of "clock out" w] by auto
next
  case (LicenseCheckResolves isValid)
  then show ?thesis using untouched_licenseVerified [of isValid "clock out" w] by auto
qed

lemma happen_all_kept:
  "happen_all hs w = Inr w' \<Longrightarrow> trial_kept w w'"
proof (induction hs arbitrary: w)
  case Nil
  then show ?case by (simp add: trial_kept_def)
next
  case (Cons x hs)
  obtain out h where x: "x = (out, h)" by (cases x)
  from Cons.prems x obtain w1 where s: "happen out h w = Inr w1" "happen_all hs w1 = Inr w'"
    by (auto split: sum.splits)
  from trial_kept_trans [OF happen_kept [OF s(1)] Cons.IH [OF s(2)]] show ?case .
qed

lemma happen_all_total:
  "globalContext w = ExtensionContext \<Longrightarrow> \<exists>w'. happen_all hs w = Inr w'"
proof (induction hs arbitrary: w)
  case Nil
  then show ?case by simp
next
  case (Cons x hs)
  obtain out h where x: "x = (out, h)" by (cases x)
  from happen_total [OF Cons.prems, of out h] obtain w1 where s: "happen out h w = Inr w1"
    by blast
  from happen_kept [OF s] Cons.prems have "globalContext w1 = ExtensionContext"
    by (simp add: trial_kept_def)
  from Cons.IH [OF this] s x show ?case by simp
qed

text \<open>
  Claim C10. \<open>startTrial\<close> writes the trial start whenever the module has its
  context; its one caller, the toggle, calls it only when no trial start is stored.
  So through any sequence of commands, timer tasks, expiry checks and license answers
  a stored trial start stays what it is; and with the extension's context set no such
  sequence throws.
\<close>

theorem trial_start_immutable:
  "(p_context w = ExtensionContext \<longrightarrow> trial_start (globalState (startTrial now w)) = Some now) \<and>
   (trial_start (globalState w) = Some t \<and> happen_all hs w = Inr w' \<longrightarrow>
      trial_start (globalState w') = Some t) \<and>
   (globalContext w = ExtensionContext \<longrightarrow> (\<exists>w'. happen_all hs w = Inr w'))"
proof (intro conjI impI)
  assume "p_context w = ExtensionContext"
  then show "trial_start (globalState (startTrial now w)) = Some now"
    by (simp add: startTrial_def)
next
  assume "trial_start (globalState w) = Some t \<and> happen_all hs w = Inr w'"
  with happen_all_kept [of hs w w'] show "trial_start (globalState w') = Some t"
    by (simp add: trial_kept_def)
next
  assume "globalContext w = ExtensionContext"
  then show "\<exists>w'. happen_all hs w = Inr w'" by (rule happen_all_total)
qed

theorem trial_start_immutable_witness:
  "trial_start (globalState trial_window) = Some 1000 \<and>
   globalContext trial_window = ExtensionContext \<and>
   (\<exists>w'. happen_all [(at_time 2000, Command Toggle), (at_time 3000, Command Toggle),
                      (at_time 400000000, TrialCheckFires), (at_time 400000001, Command Toggle)]
            trial_window = Inr w' \<and>
         trial_start (globalState w') = Some 1000)"
proof -
  let ?hs = "[(at_time 2000, Command Toggle), (at_time 3000, Command Toggle),
              (at_time 400000000, TrialCheckFires), (at_time 400000001, Command Toggle)]"
  have a: "trial_start (globalState trial_window) = Some 1000"
    "globalContext trial_window = ExtensionContext"
    by (simp_all add: trial_window_def window_def)
  note T = trial_start_immutable [of trial_window 0 1000 ?hs]
  from T a(2) obtain w' where r: "happen_all ?hs trial_window = Inr w'" by blast
  with trial_start_immutable [of trial_window 0 1000 ?hs w'] a(1)
  have "trial_start (globalState w') = Some 1000" by blast
  with a r show ?thesis by blast
qed

section \<open>Windows that share the identifier\<close>

lemma shared_identifier_step:
  assumes all: "\<forall>w \<in> set ws. extension_id w = ident \<and> isEnabled w \<and>
                  globalContext w = ExtensionContext \<and> \<not> isLockedOut w"
    and lock: "ide_lock kv = None \<or> ide_lock kv = Some ident"
  shows "\<exists>kv' ws'. fire ev (kv, ws) = Inr (kv', ws') \<and> length ws' = length ws \<and>
           (\<forall>w \<in> set ws'. extension_id w = ident \<and> isEnabled w \<and>
              globalContext w = ExtensionContext \<and> \<not> isLockedOut w) \<and>
           (ide_lock kv' = None \<or> ide_lock kv' = Some ident)"
proof -
  obtain now i where ev: "ev = (now, i)" by (cases ev)
  show ?thesis
  proof (cases "i < length ws")
    case False
    with ev all lock show ?thesis by (simp add: fire_def)
  next
    case True
    let ?w = "(ws ! i)\<lparr>globalState := kv\<rparr>"
    from True all have wi: "extension_id ?w = ident" "isEnabled ?w"
      "globalContext ?w = ExtensionContext" by simp_all
    from lock wi(1) have free: "\<not> held_by_other now (extension_id ?w) (globalState ?w)"
      by (auto simp: held_by_other_def truthy_string_def)
    from pollTick_result [OF wi(2,3), of now] free obtain w'
      where t: "pollTick now ?w = Inr w'" "isEnabled w'" "globalContext w' = ExtensionContext"
        "extension_id w' = extension_id ?w" "\<not> isLockedOut w'"
        "globalState w' = (globalState ?w)\<lparr>ide_lock := Some (extension_id ?w),
                              ide_lock_ping := Some now\<rparr>"
      by auto
    from t(1) True ev have f: "fire ev (kv, ws) = Inr (globalState w', ws[i := w'])"
      by (simp add: fire_def)
    have "\<forall>w \<in> set (ws[i := w']). extension_id w = ident \<and> isEnabled w \<and>
              globalContext w = ExtensionContext \<and> \<not> isLockedOut w"
    proof
      fix w assume "w \<in> set (ws[i := w'])"
      then have "w = w' \<or> w \<in> set ws" using set_update_subset_insert [of ws i w'] by auto
      with all t wi(1) show "extension_id w = ident \<and> isEnabled w \<and>
              globalContext w = ExtensionContext \<and> \<not> isLockedOut w" by auto
    qed
    moreover from t(6) wi(1) have "ide_lock (globalState w') = Some ident" by simp
    ultimately show ?thesis using f by simp
  qed
qed

lemma shared_identifier_all_lead:
  assumes "\<forall>w \<in> set ws. extension_id w = ident \<and> isEnabled w \<and>
                  globalContext w = ExtensionContext \<and> \<not> isLockedOut w"
    and "ide_lock kv = None \<or> ide_lock kv = Some ident"
  shows "\<exists>kv' ws'. fire_all evs (kv, ws) = Inr (kv', ws') \<and> length ws' = length ws \<and>
           (\<forall>w \<in> set ws'. isEnabled w \<and> \<not> isLockedOut w)"
  using assms
proof (induction evs arbitrary: kv ws)
  case Nil
  then show ?case by simp
next
  case (Cons ev evs)
  from shared_identifier_step [OF Cons.prems, of ev] obtain kv1 ws1
    where s: "fire ev (kv, ws) = Inr (kv1, ws1)" "length ws1 = length ws"
      "\<forall>w \<in> set ws1. extension_id w = ident \<and> isEnabled w \<and>
              globalContext w = ExtensionContext \<and> \<not> isLockedOut w"
      "ide_lock kv1 = None \<or> ide_lock kv1 = Some ident"
    by blast
  from Cons.IH [OF s(3,4)] s(1,2) show ?case by simp
qed

text \<open>
  Claim C2 asks for at most one leader once the instances have all ticked. The tick
  tells instances apart by \<^verbatim>\<open>globalContext.extension.id\<close>, the identifier of the
  extension, which every window of it carries; the random \<^verbatim>\<open>INSTANCE_ID\<close> is used
  by \<open>checkInstanceLock\<close> only. Two such windows, ticking in turn every five seconds
  over sixteen seconds, each find their own identifier in the lock: neither ever
  stands by, and after the last tick both report themselves leader.
\<close>

theorem shared_identifier_two_leaders:
  "sorted (map fst alternating_ticks) \<and>
   last_fired 0 alternating_ticks = Some 16000 \<and>
   last_fired 1 alternating_ticks = Some 17000 \<and>
   (\<exists>kv ws. fire_all alternating_ticks (empty_store, two_windows) = Inr (kv, ws) \<and>
      reports_leader ws 0 \<and> reports_leader ws 1)"
proof -
  have o: "sorted (map fst alternating_ticks)"
    by (simp add: alternating_ticks_def)
  have l: "last_fired 0 alternating_ticks = Some 16000"
    "last_fired 1 alternating_ticks = Some 17000"
    by (simp_all add: alternating_ticks_def)
  have a: "\<forall>w \<in> set two_windows. extension_id w = ''publisher.auto-accept'' \<and> isEnabled w \<and>
             globalContext w = ExtensionContext \<and> \<not> isLockedOut w"
    by (simp add: two_windows_def window_def module_load_def)
  have b: "ide_lock empty_store = None \<or> ide_lock empty_store = Some ''publisher.auto-accept''"
    by (simp add: empty_store_def)
  from shared_identifier_all_lead [OF a b, of alternating_ticks] obtain kv ws
    where r: "fire_all alternating_ticks (empty_store, two_windows) = Inr (kv, ws)"
      "length ws = length two_windows" "\<forall>w \<in> set ws. isEnabled w \<and> \<not> isLockedOut w"
    by blast
  from r(2) have len: "length ws = 2" by (simp add: two_windows_def)
  then have "ws ! 0 \<in> set ws" "ws ! 1 \<in> set ws" by simp_all
  with r(3) len have "reports_leader ws 0" "reports_leader ws 1"
    by (simp_all add: reports_leader_def)
  with o l r(1) show ?thesis by blast
qed

end
